theory Spec2Isabelle
  imports Main "HOL-Library.Word"
begin

section \<open>The EGL pbuffer offscreen provider (modules/video\_filter/egl\_pbuffer.c)\<close>

text \<open>
  The module keeps a pool of \<open>BUFFER_COUNT\<close> slots. Each slot has a pixel buffer
  object, a framebuffer with its texture, and a reference-counted picture context.
  \<open>Swap\<close> reads the framebuffer of the current slot back into its pixel buffer, maps
  the buffer, hands it out as a picture, and moves on to a free slot (\<open>UpdateBuffer\<close>),
  sleeping on a condition variable when every slot is still referenced.

  The embedding passes the \<open>struct vlc_gl_pbuffer\<close> explicitly. Calls into EGL, into the
  GL function table, and on the mutex and the condition variable are recorded, in
  program order, in a list of events carried by the state; what such a call returns
  is a parameter of the function that makes it.
\<close>

subsection \<open>Data\<close>

definition BUFFER_COUNT :: nat where
  "BUFFER_COUNT = 4"

text \<open>A pointer is an address; \<open>NULL\<close> is address 0.\<close>

type_synonym ptr = nat

definition NULL :: ptr where
  "NULL = 0"

text \<open>The range of a C \<open>int\<close> (32 bits), used for \<open>rc\<close>, \<open>GLsizei\<close>, \<open>i_lines\<close>, \<open>i_pitch\<close>.\<close>

definition INT_MAX :: int where
  "INT_MAX = 2147483647"

definition INT_MIN :: int where
  "INT_MIN = - 2147483648"

datatype vlc_ret = VLC_SUCCESS | VLC_EGENERIC | VLC_ENOMEM

text \<open>
  \<open>struct pbo_picture_context\<close>. The embedded \<open>picture_context_t\<close> holds two function
  pointers, which \<open>Open\<close> sets to \<open>picture_context_destroy\<close> and \<open>picture_context_copy\<close>
  and nothing changes afterwards, and the pointer \<open>vctx\<close>; only \<open>vctx\<close> is kept.
  \<open>lock\<close> and \<open>cond\<close> are the addresses the context was given.
\<close>

record pbo_picture_context =
  vctx :: ptr
  buffer_mapping :: ptr
  rc :: int
  lock :: ptr
  cond :: ptr

text \<open>The calls on the GL function table (\<open>opengl_vtable_t\<close>) that the module makes.\<close>

datatype fb_target = GL_FRAMEBUFFER | GL_DRAW_FRAMEBUFFER

datatype gl_call =
    GenBuffers nat
  | GenFramebuffers nat
  | GenTextures nat
  | BindBuffer "32 word"
  | BufferData "32 word"
  | BindFramebuffer fb_target "32 word"
  | BindTexture "32 word"
  | TexImage2D "32 word" "32 word"
  | FramebufferTexture2D "32 word"
  | UnmapBuffer
  | ReadPixels int int
  | MapBufferRange int
  | GetIntegerv

text \<open>
  What a thread does to the world outside the struct, and its writes to a reference
  count. \<open>EglMakeCurrent True\<close> binds the surface and the context, \<open>EglMakeCurrent False\<close>
  releases them. \<open>CondWait c m\<close> is the start of \<open>vlc_cond_wait\<close> (the mutex \<open>m\<close> is given
  up), \<open>CondWoken c m\<close> its return (the mutex is held again). \<open>RcIncr i\<close> is an \<open>rc++\<close>
  and \<open>RcDecr i\<close> an \<open>rc--\<close> on \<open>picture_contexts[i]\<close>.
\<close>

datatype event =
    MutexLock ptr
  | MutexUnlock ptr
  | CondWait ptr ptr
  | CondWoken ptr ptr
  | CondSignal ptr
  | RcIncr nat
  | RcDecr nat
  | EglMakeCurrent bool
  | EglGetDisplay
  | EglInitialize
  | EglChooseConfig
  | EglCreatePbufferSurface "32 word" "32 word"
  | EglBindAPI
  | EglCreateContext
  | EglTerminate
  | GL gl_call

text \<open>
  \<open>struct vlc_gl_pbuffer\<close>. \<open>sys_lock\<close> and \<open>sys_cond\<close> are the addresses of the embedded
  mutex and condition variable; \<open>i_visible_width\<close> and \<open>i_visible_height\<close> are the two
  fields of \<open>fmt_out\<close> that the module reads. The EGL handles, the function table and
  the two extension entry points are only passed through to EGL and are left out.
  \<open>events\<close> is the record of calls, oldest first.
\<close>

record vlc_gl_pbuffer =
  sys_lock :: ptr
  sys_cond :: ptr
  i_visible_width :: "32 word"
  i_visible_height :: "32 word"
  current_flip :: nat
  pixelbuffers :: "32 word list"
  framebuffers :: "32 word list"
  textures :: "32 word list"
  picture_contexts :: "pbo_picture_context list"
  current :: bool
  events :: "event list"

text \<open>
  How a call ends: it returns (\<open>Ret\<close>); it goes to sleep in \<open>vlc_cond_wait\<close> and is never
  woken again (\<open>Blocked\<close>, with the struct as it is when the thread goes to sleep for the
  last time); an \<open>assert\<close> fails (\<open>AssertFailed\<close>); or it runs into behaviour that C
  leaves undefined, a signed overflow or an index outside an array (\<open>Undefined\<close>).
\<close>

datatype 'a outcome =
    is_Ret: Ret (ret_val: 'a)
  | is_Blocked: Blocked (blocked_state: vlc_gl_pbuffer)
  | AssertFailed
  | Undefined

definition obind :: "'a outcome \<Rightarrow> ('a \<Rightarrow> 'b outcome) \<Rightarrow> 'b outcome" where
  "obind m f = (case m of Ret x \<Rightarrow> f x | Blocked s \<Rightarrow> Blocked s
                | AssertFailed \<Rightarrow> AssertFailed | Undefined \<Rightarrow> Undefined)"

text \<open>
  \<open>assert(c)\<close>: checked unless the build defines \<open>NDEBUG\<close>. Every function with an
  assertion takes the build flag \<open>ndebug\<close> as its first argument.
\<close>

definition assert_c :: "bool \<Rightarrow> bool \<Rightarrow> 'a outcome \<Rightarrow> 'a outcome" where
  "assert_c ndebug c k = (if ndebug \<or> c then k else AssertFailed)"

definition emit :: "event \<Rightarrow> vlc_gl_pbuffer \<Rightarrow> vlc_gl_pbuffer" where
  "emit e sys = sys\<lparr>events := events sys @ [e]\<rparr>"

subsection \<open>MakeCurrent and ReleaseCurrent (lines 77--99)\<close>

text \<open>\<open>egl_ok\<close> says whether \<open>eglMakeCurrent\<close> returns \<open>EGL_TRUE\<close>.\<close>

definition MakeCurrent :: "bool \<Rightarrow> bool \<Rightarrow> vlc_gl_pbuffer \<Rightarrow> (vlc_ret \<times> vlc_gl_pbuffer) outcome" where
  "MakeCurrent ndebug egl_ok sys =
     assert_c ndebug (\<not> current sys)
       (let s1 = emit (EglMakeCurrent True) sys in
        if \<not> egl_ok then Ret (VLC_EGENERIC, s1)
        else Ret (VLC_SUCCESS, s1\<lparr>current := True\<rparr>))"

definition ReleaseCurrent :: "bool \<Rightarrow> vlc_gl_pbuffer \<Rightarrow> vlc_gl_pbuffer outcome" where
  "ReleaseCurrent ndebug sys =
     assert_c ndebug (current sys)
       (Ret ((emit (EglMakeCurrent False) sys)\<lparr>current := False\<rparr>))"

subsection \<open>The picture context: copy and destroy (lines 230--249)\<close>

text \<open>
  Both take a pointer to a context of the pool, here the index \<open>i\<close> of its slot. An index
  outside the pool stands for a pointer to no context. \<open>rc++\<close> and \<open>rc--\<close> on an \<open>int\<close>
  are undefined when they overflow.
\<close>

definition set_rc :: "nat \<Rightarrow> int \<Rightarrow> vlc_gl_pbuffer \<Rightarrow> vlc_gl_pbuffer" where
  "set_rc i v sys =
     sys\<lparr>picture_contexts := (picture_contexts sys)[i := (picture_contexts sys ! i)\<lparr>rc := v\<rparr>]\<rparr>"

definition rc_incr :: "nat \<Rightarrow> vlc_gl_pbuffer \<Rightarrow> vlc_gl_pbuffer outcome" where
  "rc_incr i sys =
     (if rc (picture_contexts sys ! i) = INT_MAX then Undefined
      else Ret (emit (RcIncr i) (set_rc i (rc (picture_contexts sys ! i) + 1) sys)))"

definition rc_decr :: "nat \<Rightarrow> vlc_gl_pbuffer \<Rightarrow> vlc_gl_pbuffer outcome" where
  "rc_decr i sys =
     (if rc (picture_contexts sys ! i) = INT_MIN then Undefined
      else Ret (emit (RcDecr i) (set_rc i (rc (picture_contexts sys ! i) - 1) sys)))"

definition picture_context_copy :: "nat \<Rightarrow> vlc_gl_pbuffer \<Rightarrow> vlc_gl_pbuffer outcome" where
  "picture_context_copy i sys =
     (if i \<ge> BUFFER_COUNT then Undefined
      else
        let m = lock (picture_contexts sys ! i) in
        obind (rc_incr i (emit (MutexLock m) sys))
          (\<lambda>s. Ret (emit (MutexUnlock m) s)))"

definition picture_context_destroy :: "nat \<Rightarrow> vlc_gl_pbuffer \<Rightarrow> vlc_gl_pbuffer outcome" where
  "picture_context_destroy i sys =
     (if i \<ge> BUFFER_COUNT then Undefined
      else
        let m = lock (picture_contexts sys ! i);
            c = cond (picture_contexts sys ! i) in
        obind (rc_decr i (emit (MutexLock m) sys))
          (\<lambda>s. Ret (emit (MutexUnlock m) (emit (CondSignal c) s))))"

text \<open>What the consumer threads do with the contexts they hold.\<close>

datatype consumer_op = Copy nat | Destroy nat

fun consumer_step :: "consumer_op \<Rightarrow> vlc_gl_pbuffer \<Rightarrow> vlc_gl_pbuffer outcome" where
  "consumer_step (Copy i) sys = picture_context_copy i sys"
| "consumer_step (Destroy i) sys = picture_context_destroy i sys"

fun consumers :: "consumer_op list \<Rightarrow> vlc_gl_pbuffer \<Rightarrow> vlc_gl_pbuffer outcome" where
  "consumers [] sys = Ret sys"
| "consumers (x # xs) sys = obind (consumer_step x sys) (consumers xs)"

subsection \<open>BindDrawFramebuffer and UpdateBuffer (lines 251--279)\<close>

definition BindDrawFramebuffer :: "vlc_gl_pbuffer \<Rightarrow> vlc_gl_pbuffer" where
  "BindDrawFramebuffer sys =
     emit (GL (BindFramebuffer GL_DRAW_FRAMEBUFFER (framebuffers sys ! current_flip sys))) sys"

text \<open>
  The \<open>for\<close> loop of \<open>UpdateBuffer\<close>, entered with \<open>index\<close>: it leaves with the first index
  from there on whose count is 0 (the \<open>goto out_loop\<close>), or with \<open>BUFFER_COUNT\<close> when it
  runs to the end.
\<close>

function UpdateBuffer_scan :: "bool \<Rightarrow> pbo_picture_context list \<Rightarrow> nat \<Rightarrow> nat outcome" where
  "UpdateBuffer_scan ndebug pcs index =
     (if index < BUFFER_COUNT then
        (if \<not> ndebug \<and> \<not> rc (pcs ! index) \<ge> 0 then AssertFailed
         else if rc (pcs ! index) = 0 then Ret index
         else UpdateBuffer_scan ndebug pcs (Suc index))
      else Ret index)"
  by pat_completeness auto
termination
  by (relation "measure (\<lambda>(ndebug, pcs, index). BUFFER_COUNT - index)") auto

declare UpdateBuffer_scan.simps [simp del]

text \<open>
  The \<open>do ... while\<close> loop. When the scan finds no slot the thread sleeps in
  \<open>vlc_cond_wait\<close>. \<open>wakeups\<close> lists, for each sleep of this call in turn, what the
  consumer threads do before the producer wakes up (nothing at all for a spurious
  wakeup). After the wait \<open>index\<close> is still \<open>BUFFER_COUNT\<close>, so the loop scans again from
  index 0. When the list is used up and no slot is free, the producer goes to sleep and
  stays asleep.
\<close>

fun UpdateBuffer_loop ::
  "bool \<Rightarrow> consumer_op list list \<Rightarrow> vlc_gl_pbuffer \<Rightarrow> (nat \<times> vlc_gl_pbuffer) outcome" where
  "UpdateBuffer_loop ndebug [] sys =
     obind (UpdateBuffer_scan ndebug (picture_contexts sys) 0)
       (\<lambda>index. if index < BUFFER_COUNT then Ret (index, sys)
          else Blocked (emit (CondWait (sys_cond sys) (sys_lock sys)) sys))"
| "UpdateBuffer_loop ndebug (w # wakeups) sys =
     obind (UpdateBuffer_scan ndebug (picture_contexts sys) 0)
       (\<lambda>index. if index < BUFFER_COUNT then Ret (index, sys)
          else obind (consumers w (emit (CondWait (sys_cond sys) (sys_lock sys)) sys))
                 (\<lambda>s. UpdateBuffer_loop ndebug wakeups
                         (emit (CondWoken (sys_cond sys) (sys_lock sys)) s)))"

definition UpdateBuffer ::
  "bool \<Rightarrow> consumer_op list list \<Rightarrow> vlc_gl_pbuffer \<Rightarrow> vlc_gl_pbuffer outcome" where
  "UpdateBuffer ndebug wakeups sys =
     obind (UpdateBuffer_loop ndebug wakeups (emit (MutexLock (sys_lock sys)) sys))
       (\<lambda>(index, s). Ret (BindDrawFramebuffer
           ((emit (MutexUnlock (sys_lock s)) s)\<lparr>current_flip := index\<rparr>)))"

subsection \<open>Swap (lines 281--344)\<close>

text \<open>
  The picture handed out: plane 0 of a \<open>picture_t\<close> and its context pointer, which is
  \<open>None\<close> for \<open>NULL\<close> and \<open>Some i\<close> for the address of \<open>picture_contexts[i]\<close>.
\<close>

record picture_t =
  p_pixels :: ptr
  i_lines :: int
  i_pitch :: int
  context_p :: "nat option"

text \<open>
  Modelled from the spec: \<open>picture_NewFromResource\<close> is not in this file. The spec says
  of the frame container only that it is constructed from a raw pixel pointer, a stride
  and a height, that it exposes a context handle, and that constructing it can fail for
  lack of resources. \<open>alloc_ok\<close> says whether the construction succeeds; the new picture
  has the plane it was given and no context yet.
\<close>

definition picture_NewFromResource :: "bool \<Rightarrow> ptr \<Rightarrow> int \<Rightarrow> int \<Rightarrow> picture_t option" where
  "picture_NewFromResource alloc_ok pixels lines pitch =
     (if alloc_ok then Some \<lparr>p_pixels = pixels, i_lines = lines, i_pitch = pitch, context_p = None\<rparr>
      else None)"

text \<open>
  \<open>GLsizei\<close> is a 32-bit \<open>int\<close>: the unsigned width and height of \<open>fmt_out\<close> are read as
  two's complement, and a product of two \<open>int\<close>s outside the range is undefined.
\<close>

definition to_GLsizei :: "32 word \<Rightarrow> int" where
  "to_GLsizei w = sint w"

definition int_mul :: "int \<Rightarrow> int \<Rightarrow> int outcome" where
  "int_mul a b = (if INT_MIN \<le> a * b \<and> a * b \<le> INT_MAX then Ret (a * b) else Undefined)"

definition set_buffer_mapping :: "nat \<Rightarrow> ptr \<Rightarrow> vlc_gl_pbuffer \<Rightarrow> vlc_gl_pbuffer" where
  "set_buffer_mapping i p sys =
     sys\<lparr>picture_contexts :=
           (picture_contexts sys)[i := (picture_contexts sys ! i)\<lparr>buffer_mapping := p\<rparr>]\<rparr>"

definition set_vctx :: "nat \<Rightarrow> ptr \<Rightarrow> vlc_gl_pbuffer \<Rightarrow> vlc_gl_pbuffer" where
  "set_vctx i p sys =
     sys\<lparr>picture_contexts := (picture_contexts sys)[i := (picture_contexts sys ! i)\<lparr>vctx := p\<rparr>]\<rparr>"

text \<open>
  \<open>pixels\<close> is what \<open>MapBufferRange\<close> returns, \<open>alloc_ok\<close> whether
  \<open>picture_NewFromResource\<close> succeeds, \<open>wakeups\<close> what happens while \<open>UpdateBuffer\<close> sleeps.
  \<open>cur\<close> is the slot that \<open>context\<close> points to for the whole call. The result is the
  picture (\<open>None\<close> for \<open>NULL\<close>) and the struct.
\<close>

definition Swap ::
  "bool \<Rightarrow> ptr \<Rightarrow> bool \<Rightarrow> consumer_op list list \<Rightarrow> vlc_gl_pbuffer
     \<Rightarrow> (picture_t option \<times> vlc_gl_pbuffer) outcome" where
  "Swap ndebug pixels alloc_ok wakeups sys =
     (if current_flip sys \<ge> BUFFER_COUNT then Undefined
      else
        let cur = current_flip sys;
            s1 = (if \<not> current sys then emit (EglMakeCurrent True) sys else sys);
            s2 = emit (GL (BindFramebuffer GL_FRAMEBUFFER (framebuffers sys ! cur)))
                   (emit (GL (BindBuffer (pixelbuffers sys ! cur))) s1);
            s3 = (if buffer_mapping (picture_contexts sys ! cur) \<noteq> NULL
                  then emit (GL UnmapBuffer) s2 else s2);
            width = to_GLsizei (i_visible_width sys);
            height = to_GLsizei (i_visible_height sys);
            s4 = emit (GL (ReadPixels width height)) s3
        in
        obind (int_mul width height) (\<lambda>wh.
        obind (int_mul wh 4) (\<lambda>size.
          let s5 = emit (GL GetIntegerv) (emit (GL (MapBufferRange size)) s4);
              stride = width;
              s6 = set_buffer_mapping cur pixels s5
          in
          obind (rc_incr cur s6) (\<lambda>s7.
          obind (UpdateBuffer ndebug wakeups s7) (\<lambda>s8.
            let s9 = (if \<not> current s8 then emit (EglMakeCurrent False) s8 else s8) in
            obind (int_mul stride 4) (\<lambda>pitch.
              let output = picture_NewFromResource alloc_ok pixels height pitch in
              assert_c ndebug (output \<noteq> None)
                (case output of
                   None \<Rightarrow> obind (rc_decr cur s9) (\<lambda>s10. Ret (None, s10))
                 | Some pic \<Rightarrow>
                     Ret (Some (pic\<lparr>context_p := Some cur\<rparr>), set_vctx cur NULL s9))))))))"

subsection \<open>InitEGL and Open (lines 130--228, 360--457)\<close>

text \<open>
  What the environment answers during \<open>Open\<close>: whether \<open>vlc_obj_malloc\<close> returns memory,
  whether each EGL call succeeds (\<open>cfgc\<close> is the number of configurations found),
  whether \<open>vlc_gl_api_Init\<close> succeeds, and the names that \<open>GenBuffers\<close>,
  \<open>GenFramebuffers\<close> and \<open>GenTextures\<close> write into the three arrays.
\<close>

record open_env =
  malloc_ok :: bool
  display_ok :: bool
  initialize_ok :: bool
  choose_config_ok :: bool
  cfgc :: int
  surface_ok :: bool
  bind_api_ok :: bool
  context_ok :: bool
  make_current_ok :: bool
  api_init_ok :: bool
  gen_pixelbuffers :: "32 word list"
  gen_framebuffers :: "32 word list"
  gen_textures :: "32 word list"

definition InitEGL ::
  "bool \<Rightarrow> open_env \<Rightarrow> 32 word \<Rightarrow> 32 word \<Rightarrow> vlc_gl_pbuffer \<Rightarrow> (vlc_ret \<times> vlc_gl_pbuffer) outcome" where
  "InitEGL ndebug env width height sys =
     (let s1 = emit EglGetDisplay sys in
      if \<not> display_ok env then Ret (VLC_EGENERIC, s1)
      else
        let s2 = emit EglInitialize s1 in
        if \<not> initialize_ok env then Ret (VLC_EGENERIC, s2)
        else
          let s3 = emit EglChooseConfig s2 in
          if \<not> choose_config_ok env \<or> cfgc env = 0 then Ret (VLC_EGENERIC, emit EglTerminate s3)
          else
            let s4 = emit (EglCreatePbufferSurface width height) s3 in
            if \<not> surface_ok env
            then assert_c ndebug False (Ret (VLC_EGENERIC, emit EglTerminate s4))
            else
              let s5 = emit EglBindAPI s4 in
              if \<not> bind_api_ok env then Ret (VLC_EGENERIC, emit EglTerminate s5)
              else
                let s6 = emit EglCreateContext s5 in
                if \<not> context_ok env then Ret (VLC_EGENERIC, emit EglTerminate s6)
                else Ret (VLC_SUCCESS, s6))"

text \<open>The body of the \<open>for\<close> loop of \<open>Open\<close> for slot \<open>i\<close> (lines 425--441).\<close>

definition Open_slot :: "32 word \<Rightarrow> 32 word \<Rightarrow> nat \<Rightarrow> vlc_gl_pbuffer \<Rightarrow> vlc_gl_pbuffer" where
  "Open_slot width height i sys =
     (let s1 = emit (GL (BindBuffer (pixelbuffers sys ! i))) sys;
          s2 = emit (GL (BufferData (width * height * 4))) s1;
          s3 = emit (GL (BindFramebuffer GL_FRAMEBUFFER (framebuffers sys ! i))) s2;
          s4 = emit (GL (BindTexture (textures sys ! i))) s3;
          s5 = emit (GL (TexImage2D width height)) s4;
          s6 = emit (GL (FramebufferTexture2D (textures sys ! i))) s5
      in s6\<lparr>picture_contexts :=
               (picture_contexts s6)[i := (picture_contexts s6 ! i)
                  \<lparr>buffer_mapping := NULL, rc := 0, lock := sys_lock sys, cond := sys_cond sys\<rparr>]\<rparr>)"

function Open_loop :: "32 word \<Rightarrow> 32 word \<Rightarrow> nat \<Rightarrow> vlc_gl_pbuffer \<Rightarrow> vlc_gl_pbuffer" where
  "Open_loop width height i sys =
     (if i < BUFFER_COUNT then Open_loop width height (Suc i) (Open_slot width height i sys)
      else sys)"
  by pat_completeness auto
termination
  by (relation "measure (\<lambda>(width, height, i, sys). BUFFER_COUNT - i)") auto

declare Open_loop.simps [simp del]

text \<open>
  \<open>sys0\<close> is the block that \<open>vlc_obj_malloc\<close> returns, with whatever it holds, at the
  addresses its \<open>sys_lock\<close> and \<open>sys_cond\<close> give. \<open>vlc_gl_MakeCurrent\<close> and
  \<open>vlc_gl_ReleaseCurrent\<close> call through \<open>gl->make_current\<close> and \<open>gl->release_current\<close>,
  which \<open>Open\<close> has just set to \<open>MakeCurrent\<close> and \<open>ReleaseCurrent\<close>; the value
  \<open>MakeCurrent\<close> returns is dropped, as in the source. On failure the block is freed
  and the result holds no struct.
\<close>

definition Open ::
  "bool \<Rightarrow> open_env \<Rightarrow> 32 word \<Rightarrow> 32 word \<Rightarrow> vlc_gl_pbuffer
     \<Rightarrow> (vlc_ret \<times> vlc_gl_pbuffer option) outcome" where
  "Open ndebug env width height sys0 =
     (if \<not> malloc_ok env then Ret (VLC_ENOMEM, None)
      else
        let s1 = sys0\<lparr>current := False, i_visible_width := width, i_visible_height := height\<rparr> in
        obind (InitEGL ndebug env width height s1) (\<lambda>(r, s2).
          if r \<noteq> VLC_SUCCESS then Ret (VLC_EGENERIC, None)
          else
            obind (MakeCurrent ndebug (make_current_ok env) s2) (\<lambda>(made, s3).
              if \<not> api_init_ok env
              then obind (ReleaseCurrent ndebug s3) (\<lambda>s4. Ret (VLC_EGENERIC, None))
              else
                let s4 = emit (GL (GenBuffers BUFFER_COUNT)) s3;
                    s5 = emit (GL (GenFramebuffers BUFFER_COUNT))
                           (s4\<lparr>pixelbuffers := gen_pixelbuffers env\<rparr>);
                    s6 = emit (GL (GenTextures BUFFER_COUNT))
                           (s5\<lparr>framebuffers := gen_framebuffers env\<rparr>);
                    s7 = Open_loop width height 0 (s6\<lparr>textures := gen_textures env\<rparr>);
                    s8 = BindDrawFramebuffer (s7\<lparr>current_flip := BUFFER_COUNT - 1\<rparr>)
                in obind (ReleaseCurrent ndebug s8) (\<lambda>s9. Ret (VLC_SUCCESS, Some s9)))))"

subsection \<open>Holding the mutex\<close>


text \<open>The events a call added: those of the state after it, past those before it.\<close>

definition new_events :: "vlc_gl_pbuffer \<Rightarrow> vlc_gl_pbuffer \<Rightarrow> event list" where
  "new_events sys sys' = drop (length (events sys)) (events sys')"

subsection \<open>Notions used in the statements\<close>

text \<open>The slot an operation of a consumer works on, and the slots a list of wakeups works on.\<close>

definition slot_of :: "consumer_op \<Rightarrow> nat" where
  "slot_of x = (case x of Copy i \<Rightarrow> i | Destroy i \<Rightarrow> i)"

definition touched :: "consumer_op list list \<Rightarrow> nat set" where
  "touched wakeups = (\<Union>w \<in> set wakeups. slot_of ` set w)"

text \<open>
  The struct when \<open>Swap\<close> has taken the mutex in \<open>UpdateBuffer\<close> (line 262), written out:
  the mapping of the current slot is \<open>pixels\<close>, its count is one higher, and the calls
  so far have been made.
\<close>

definition Swap_issued :: "ptr \<Rightarrow> vlc_gl_pbuffer \<Rightarrow> vlc_gl_pbuffer" where
  "Swap_issued pixels sys =
     (let cur = current_flip sys;
          w = to_GLsizei (i_visible_width sys);
          h = to_GLsizei (i_visible_height sys)
      in sys\<lparr>picture_contexts :=
               (picture_contexts sys)[cur := (picture_contexts sys ! cur)
                  \<lparr>buffer_mapping := pixels, rc := rc (picture_contexts sys ! cur) + 1\<rparr>],
             events := events sys
               @ (if current sys then [] else [EglMakeCurrent True])
               @ [GL (BindBuffer (pixelbuffers sys ! cur)),
                  GL (BindFramebuffer GL_FRAMEBUFFER (framebuffers sys ! cur))]
               @ (if buffer_mapping (picture_contexts sys ! cur) \<noteq> NULL then [GL UnmapBuffer] else [])
               @ [GL (ReadPixels w h), GL (MapBufferRange (w * h * 4)), GL GetIntegerv, RcIncr cur,
                  MutexLock (sys_lock sys)]\<rparr>)"

text \<open>
  The struct when \<open>Swap\<close> returns, from the struct \<open>s8\<close> with which the wait in
  \<open>UpdateBuffer\<close> ended: the mutex is unlocked, slot \<open>i\<close> is the draw target, and the
  context \<open>cur\<close> of the call is attached to the picture (\<open>alloc_ok\<close>) or has its count
  taken back.
\<close>

definition Swap_returned :: "bool \<Rightarrow> nat \<Rightarrow> nat \<Rightarrow> vlc_gl_pbuffer \<Rightarrow> vlc_gl_pbuffer" where
  "Swap_returned alloc_ok cur i s8 =
     s8\<lparr>current_flip := i,
        picture_contexts := (picture_contexts s8)[cur :=
           (if alloc_ok then (picture_contexts s8 ! cur)\<lparr>vctx := NULL\<rparr>
            else (picture_contexts s8 ! cur)\<lparr>rc := rc (picture_contexts s8 ! cur) - 1\<rparr>)],
        events := events s8 @ [MutexUnlock (sys_lock s8),
            GL (BindFramebuffer GL_DRAW_FRAMEBUFFER (framebuffers s8 ! i))]
          @ (if current s8 then [] else [EglMakeCurrent False])
          @ (if alloc_ok then [] else [RcDecr cur])\<rparr>"

text \<open>The context of slot \<open>j\<close> as the loop of \<open>Open\<close> leaves it, from the block \<open>sys0\<close>.\<close>

definition Open_ctx :: "vlc_gl_pbuffer \<Rightarrow> nat \<Rightarrow> pbo_picture_context" where
  "Open_ctx sys0 j = (picture_contexts sys0 ! j)
      \<lparr>buffer_mapping := NULL, rc := 0, lock := sys_lock sys0, cond := sys_cond sys0\<rparr>"

text \<open>The picture that \<open>Swap\<close> builds from the pointer \<open>p\<close> for the slot \<open>i\<close>.\<close>

definition frame :: "vlc_gl_pbuffer \<Rightarrow> ptr \<Rightarrow> nat \<Rightarrow> picture_t" where
  "frame sys p i = \<lparr>p_pixels = p, i_lines = to_GLsizei (i_visible_height sys),
      i_pitch = to_GLsizei (i_visible_width sys) * 4, context_p = Some i\<rparr>"

text \<open>
  Calls of \<open>Swap\<close> one after the other, one for each pointer that \<open>MapBufferRange\<close>
  returns, every picture allocated and no consumer doing anything: frames are produced
  and none is disposed.
\<close>

fun produce ::
  "bool \<Rightarrow> ptr list \<Rightarrow> vlc_gl_pbuffer \<Rightarrow> (picture_t option list \<times> vlc_gl_pbuffer) outcome" where
  "produce ndebug [] sys = Ret ([], sys)"
| "produce ndebug (p # ps) sys =
     obind (Swap ndebug p True [] sys)
       (\<lambda>(pic, s). obind (produce ndebug ps s) (\<lambda>(pics, s'). Ret (pic # pics, s')))"

text \<open>
  The width and height of the output are such that no product that \<open>Swap\<close> computes in
  \<open>int\<close> overflows.
\<close>

definition dims_ok :: "vlc_gl_pbuffer \<Rightarrow> bool" where
  "dims_ok sys \<longleftrightarrow>
     (let w = to_GLsizei (i_visible_width sys); h = to_GLsizei (i_visible_height sys)
      in INT_MIN \<le> w * h \<and> w * h \<le> INT_MAX \<and> INT_MIN \<le> w * h * 4 \<and> w * h * 4 \<le> INT_MAX
         \<and> INT_MIN \<le> w * 4 \<and> w * 4 \<le> INT_MAX)"

text \<open>
  \<open>rc_only T s s'\<close>: from \<open>s\<close> to \<open>s'\<close> nothing has changed but the counts of the slots in
  \<open>T\<close>, and the events added are neither GL calls nor \<open>eglMakeCurrent\<close>. This is what the
  consumers, and the producer while it waits, do to the struct.
\<close>

definition rc_only :: "nat set \<Rightarrow> vlc_gl_pbuffer \<Rightarrow> vlc_gl_pbuffer \<Rightarrow> bool" where
  "rc_only T s s' \<longleftrightarrow>
     (\<exists>pcs es. s' = s\<lparr>picture_contexts := pcs, events := events s @ es\<rparr>
        \<and> length pcs = length (picture_contexts s)
        \<and> (\<forall>j < length pcs. pcs ! j = (picture_contexts s ! j)\<lparr>rc := rc (pcs ! j)\<rparr>
              \<and> (j \<notin> T \<longrightarrow> rc (pcs ! j) = rc (picture_contexts s ! j)))
        \<and> (\<forall>g. GL g \<notin> set es) \<and> EglMakeCurrent True \<notin> set es \<and> EglMakeCurrent False \<notin> set es)"

text \<open>
  The scan passes over a slot when its count is not 0 and the assertion of line 268
  holds for it (or is compiled out).
\<close>

definition passes :: "bool \<Rightarrow> pbo_picture_context \<Rightarrow> bool" where
  "passes ndebug c \<longleftrightarrow> rc c \<noteq> 0 \<and> (ndebug \<or> 0 \<le> rc c)"

text \<open>
  The protocol of the consumers: \<open>holds_references xs sys\<close> says that in the run of \<open>xs\<close>
  from \<open>sys\<close> every \<open>Destroy\<close> gives up a reference that is held, that is, finds a count
  above 0. \<open>counts_ok\<close> says that no count of the pool is negative, which is what the
  assertion in the scan of \<open>UpdateBuffer\<close> checks slot by slot.
\<close>

fun holds_references :: "consumer_op list \<Rightarrow> vlc_gl_pbuffer \<Rightarrow> bool" where
  "holds_references [] sys = True"
| "holds_references (x # xs) sys =
     ((case x of Destroy i \<Rightarrow> 0 < rc (picture_contexts sys ! i) | Copy i \<Rightarrow> True)
      \<and> (case consumer_step x sys of Ret s \<Rightarrow> holds_references xs s | _ \<Rightarrow> True))"

definition counts_ok :: "vlc_gl_pbuffer \<Rightarrow> bool" where
  "counts_ok sys \<longleftrightarrow> (\<forall>j \<in> {0..<BUFFER_COUNT}. 0 \<le> rc (picture_contexts sys ! j))"

subsection \<open>Example states\<close>

text \<open>
  \<open>pool0\<close> is a pool as \<open>Open\<close> leaves it for a 64 by 64 output, with an empty record of
  events; \<open>pool_rcs a b c d\<close> is the same pool with the four counts set.
\<close>

definition ctx0 :: pbo_picture_context where
  "ctx0 = \<lparr>vctx = 7, buffer_mapping = NULL, rc = 0, lock = 64, cond = 128\<rparr>"

definition pool0 :: vlc_gl_pbuffer where
  "pool0 = \<lparr>sys_lock = 64, sys_cond = 128, i_visible_width = 64, i_visible_height = 64,
      current_flip = 3, pixelbuffers = [11, 12, 13, 14], framebuffers = [21, 22, 23, 24],
      textures = [31, 32, 33, 34], picture_contexts = [ctx0, ctx0, ctx0, ctx0],
      current = False, events = []\<rparr>"

definition pool_rcs :: "int \<Rightarrow> int \<Rightarrow> int \<Rightarrow> int \<Rightarrow> vlc_gl_pbuffer" where
  "pool_rcs a b c d =
     pool0\<lparr>picture_contexts := [ctx0\<lparr>rc := a\<rparr>, ctx0\<lparr>rc := b\<rparr>, ctx0\<lparr>rc := c\<rparr>, ctx0\<lparr>rc := d\<rparr>]\<rparr>"

text \<open>
  \<open>block0\<close> is a block of memory not yet initialised, \<open>env0\<close> an environment in which
  every call of \<open>Open\<close> succeeds, and \<open>opened0\<close> the struct that \<open>Open\<close> makes of them for
  a 64 by 64 output.
\<close>

definition block0 :: vlc_gl_pbuffer where
  "block0 = \<lparr>sys_lock = 64, sys_cond = 128, i_visible_width = 9, i_visible_height = 0,
      current_flip = 77, pixelbuffers = [0, 0, 0, 0], framebuffers = [5, 0, 0, 1],
      textures = [0, 0, 2, 0],
      picture_contexts =
        [\<lparr>vctx = 7, buffer_mapping = 3, rc = - 5, lock = 1, cond = 0\<rparr>,
         \<lparr>vctx = 0, buffer_mapping = 0, rc = 12, lock = 0, cond = 9\<rparr>,
         \<lparr>vctx = 7, buffer_mapping = 8, rc = 0, lock = 2, cond = 2\<rparr>,
         \<lparr>vctx = 1, buffer_mapping = 1, rc = 1, lock = 1, cond = 1\<rparr>],
      current = True, events = []\<rparr>"

definition env0 :: open_env where
  "env0 = \<lparr>malloc_ok = True, display_ok = True, initialize_ok = True, choose_config_ok = True,
      cfgc = 1, surface_ok = True, bind_api_ok = True, context_ok = True, make_current_ok = True,
      api_init_ok = True, gen_pixelbuffers = [11, 12, 13, 14], gen_framebuffers = [21, 22, 23, 24],
      gen_textures = [31, 32, 33, 34]\<rparr>"

definition opened0 :: vlc_gl_pbuffer where
  "opened0 = the (snd (ret_val (Open False env0 64 64 block0)))"

text \<open>
  \<open>pool_mapped\<close>: the current slot 3 is free again, and its buffer is still mapped at
  address 4096 from an earlier cycle.
\<close>

definition pool_mapped :: vlc_gl_pbuffer where
  "pool_mapped = pool0\<lparr>picture_contexts := [ctx0, ctx0, ctx0, ctx0\<lparr>buffer_mapping := 4096\<rparr>]\<rparr>"


text \<open>\<open>held0\<close>: the pool with one reference held on the frame of slot 0.\<close>

definition held0 :: vlc_gl_pbuffer where
  "held0 = pool_rcs 1 0 0 0"

section \<open>Properties\<close>

subsection \<open>Auxiliary facts\<close>

lemma obind_Ret [simp]: "obind (Ret x) f = f x"
  by (simp add: obind_def)


lemma obind_eq_Ret: "obind m f = Ret y \<longleftrightarrow> (\<exists>x. m = Ret x \<and> f x = Ret y)"
  by (cases m) (simp_all add: obind_def)

lemma obind_RetE:
  assumes "obind m f = Ret y"
  obtains x where "m = Ret x" and "f x = Ret y"
  using assms by (cases m) (simp_all add: obind_def)

lemma obind_simps [simp]:
  "obind (Blocked s) f = Blocked s"
  "obind AssertFailed f = AssertFailed"
  "obind Undefined f = Undefined"
  by (simp_all add: obind_def)

lemma picture_context_copy_Ret:
  "picture_context_copy i sys = Ret s' \<longleftrightarrow>
     i < BUFFER_COUNT \<and> rc (picture_contexts sys ! i) \<noteq> INT_MAX \<and>
     s' = sys\<lparr>picture_contexts :=
                (picture_contexts sys)[i := (picture_contexts sys ! i)\<lparr>rc := rc (picture_contexts sys ! i) + 1\<rparr>],
              events := events sys @ [MutexLock (lock (picture_contexts sys ! i)), RcIncr i,
                                      MutexUnlock (lock (picture_contexts sys ! i))]\<rparr>"
  by (auto simp: picture_context_copy_def rc_incr_def set_rc_def emit_def Let_def)

lemma picture_context_destroy_Ret:
  "picture_context_destroy i sys = Ret s' \<longleftrightarrow>
     i < BUFFER_COUNT \<and> rc (picture_contexts sys ! i) \<noteq> INT_MIN \<and>
     s' = sys\<lparr>picture_contexts :=
                (picture_contexts sys)[i := (picture_contexts sys ! i)\<lparr>rc := rc (picture_contexts sys ! i) - 1\<rparr>],
              events := events sys @ [MutexLock (lock (picture_contexts sys ! i)), RcDecr i,
                                      CondSignal (cond (picture_contexts sys ! i)),
                                      MutexUnlock (lock (picture_contexts sys ! i))]\<rparr>"
  by (auto simp: picture_context_destroy_def rc_decr_def set_rc_def emit_def Let_def)

lemma rc_only_refl: "rc_only T s s"
  unfolding rc_only_def
  by (rule exI [of _ "picture_contexts s"], rule exI [of _ "[]"]) simp

lemma rc_only_mono: "rc_only T s s' \<Longrightarrow> T \<subseteq> U \<Longrightarrow> rc_only U s s'"
  unfolding rc_only_def by blast

lemma rc_only_trans:
  assumes "rc_only T s s'" and "rc_only T s' s''"
  shows "rc_only T s s''"
proof -
  from assms(1) obtain pcs es where 1: "s' = s\<lparr>picture_contexts := pcs, events := events s @ es\<rparr>"
    and l1: "length pcs = length (picture_contexts s)"
    and p1: "\<forall>j < length pcs. pcs ! j = (picture_contexts s ! j)\<lparr>rc := rc (pcs ! j)\<rparr>
              \<and> (j \<notin> T \<longrightarrow> rc (pcs ! j) = rc (picture_contexts s ! j))"
    and e1: "(\<forall>g. GL g \<notin> set es) \<and> EglMakeCurrent True \<notin> set es \<and> EglMakeCurrent False \<notin> set es"
    unfolding rc_only_def by blast
  from assms(2) obtain pcs' es' where 2: "s'' = s'\<lparr>picture_contexts := pcs', events := events s' @ es'\<rparr>"
    and l2: "length pcs' = length (picture_contexts s')"
    and p2: "\<forall>j < length pcs'. pcs' ! j = (picture_contexts s' ! j)\<lparr>rc := rc (pcs' ! j)\<rparr>
              \<and> (j \<notin> T \<longrightarrow> rc (pcs' ! j) = rc (picture_contexts s' ! j))"
    and e2: "(\<forall>g. GL g \<notin> set es') \<and> EglMakeCurrent True \<notin> set es' \<and> EglMakeCurrent False \<notin> set es'"
    unfolding rc_only_def by blast
  have a: "s'' = s\<lparr>picture_contexts := pcs', events := events s @ (es @ es')\<rparr>"
    using 1 2 by simp
  have b: "length pcs' = length (picture_contexts s)"
    using 1 l1 l2 by simp
  have c: "\<forall>j < length pcs'. pcs' ! j = (picture_contexts s ! j)\<lparr>rc := rc (pcs' ! j)\<rparr>
              \<and> (j \<notin> T \<longrightarrow> rc (pcs' ! j) = rc (picture_contexts s ! j))"
  proof (intro allI impI)
    fix j assume j: "j < length pcs'"
    then have j1: "j < length pcs" using 1 l2 by simp
    from p2 j have x: "pcs' ! j = (pcs ! j)\<lparr>rc := rc (pcs' ! j)\<rparr>"
      and x': "j \<notin> T \<longrightarrow> rc (pcs' ! j) = rc (pcs ! j)" using 1 by simp_all
    from p1 j1 have y: "pcs ! j = (picture_contexts s ! j)\<lparr>rc := rc (pcs ! j)\<rparr>"
      and y': "j \<notin> T \<longrightarrow> rc (pcs ! j) = rc (picture_contexts s ! j)" by simp_all
    have "pcs' ! j = (picture_contexts s ! j)\<lparr>rc := rc (pcs' ! j)\<rparr>"
      by (subst x, subst y) simp
    with x' y' show "pcs' ! j = (picture_contexts s ! j)\<lparr>rc := rc (pcs' ! j)\<rparr>
              \<and> (j \<notin> T \<longrightarrow> rc (pcs' ! j) = rc (picture_contexts s ! j))" by simp
  qed
  have d: "(\<forall>g. GL g \<notin> set (es @ es')) \<and> EglMakeCurrent True \<notin> set (es @ es')
      \<and> EglMakeCurrent False \<notin> set (es @ es')"
    using e1 e2 by simp
  show ?thesis
    unfolding rc_only_def using a b c d by blast
qed

lemma rc_only_emit:
  "(\<And>g. e \<noteq> GL g) \<Longrightarrow> (\<And>b. e \<noteq> EglMakeCurrent b) \<Longrightarrow> rc_only T s (emit e s)"
  unfolding rc_only_def emit_def
  by (rule exI [of _ "picture_contexts s"], rule exI [of _ "[e]"]) auto

lemma consumer_step_rc_only:
  assumes "consumer_step x s = Ret s'" and "length (picture_contexts s) = BUFFER_COUNT"
  shows "rc_only {slot_of x} s s'"
proof (cases x)
  case (Copy i)
  with assms have *: "i < BUFFER_COUNT" "s' = s\<lparr>picture_contexts :=
                (picture_contexts s)[i := (picture_contexts s ! i)\<lparr>rc := rc (picture_contexts s ! i) + 1\<rparr>],
              events := events s @ [MutexLock (lock (picture_contexts s ! i)), RcIncr i,
                                      MutexUnlock (lock (picture_contexts s ! i))]\<rparr>"
    by (simp_all add: picture_context_copy_Ret)
  show ?thesis
    unfolding rc_only_def
    apply (rule exI [of _ "(picture_contexts s)[i := (picture_contexts s ! i)\<lparr>rc := rc (picture_contexts s ! i) + 1\<rparr>]"])
    apply (rule exI [of _ "[MutexLock (lock (picture_contexts s ! i)), RcIncr i,
                                      MutexUnlock (lock (picture_contexts s ! i))]"])
    using * Copy assms(2) by (auto simp: slot_of_def nth_list_update)
next
  case (Destroy i)
  with assms have *: "i < BUFFER_COUNT" "s' = s\<lparr>picture_contexts :=
                (picture_contexts s)[i := (picture_contexts s ! i)\<lparr>rc := rc (picture_contexts s ! i) - 1\<rparr>],
              events := events s @ [MutexLock (lock (picture_contexts s ! i)), RcDecr i,
                                      CondSignal (cond (picture_contexts s ! i)),
                                      MutexUnlock (lock (picture_contexts s ! i))]\<rparr>"
    by (simp_all add: picture_context_destroy_Ret)
  show ?thesis
    unfolding rc_only_def
    apply (rule exI [of _ "(picture_contexts s)[i := (picture_contexts s ! i)\<lparr>rc := rc (picture_contexts s ! i) - 1\<rparr>]"])
    apply (rule exI [of _ "[MutexLock (lock (picture_contexts s ! i)), RcDecr i,
                                      CondSignal (cond (picture_contexts s ! i)),
                                      MutexUnlock (lock (picture_contexts s ! i))]"])
    using * Destroy assms(2) by (auto simp: slot_of_def nth_list_update)
qed

lemma rc_only_length: "rc_only T s s' \<Longrightarrow> length (picture_contexts s') = length (picture_contexts s)"
  unfolding rc_only_def by auto

lemma consumers_rc_only:
  "consumers xs s = Ret s' \<Longrightarrow> length (picture_contexts s) = BUFFER_COUNT \<Longrightarrow>
     rc_only (slot_of ` set xs) s s'"
proof (induction xs arbitrary: s)
  case Nil
  then show ?case by (simp add: rc_only_refl)
next
  case (Cons x xs)
  from Cons.prems(1) obtain s1 where 1: "consumer_step x s = Ret s1" and 2: "consumers xs s1 = Ret s'"
    by (auto simp: obind_eq_Ret)
  have a: "rc_only {slot_of x} s s1" using consumer_step_rc_only [OF 1 Cons.prems(2)] .
  then have l: "length (picture_contexts s1) = BUFFER_COUNT"
    using Cons.prems(2) by (simp add: rc_only_length)
  have b: "rc_only (slot_of ` set xs) s1 s'" using Cons.IH [OF 2 l] .
  show ?case
    by (rule rc_only_trans [OF rc_only_mono [OF a] rc_only_mono [OF b]]) auto
qed




text \<open>The scan, by computation induction.\<close>

lemma scan_Ret_bound:
  "UpdateBuffer_scan ndebug pcs k = Ret i \<Longrightarrow> k \<le> BUFFER_COUNT \<Longrightarrow> k \<le> i \<and> i \<le> BUFFER_COUNT"
proof (induction ndebug pcs k rule: UpdateBuffer_scan.induct)
  case (1 ndebug pcs index)
  show ?case
  proof (cases "index < BUFFER_COUNT")
    case True
    with "1.prems" "1.IH" show ?thesis
      by (auto simp: UpdateBuffer_scan.simps [of ndebug pcs index] split: if_splits)
  next
    case False
    with "1.prems" show ?thesis
      by (auto simp: UpdateBuffer_scan.simps [of ndebug pcs index] split: if_splits)
  qed
qed

lemma scan_Ret_free:
  "UpdateBuffer_scan ndebug pcs k = Ret i \<Longrightarrow> i < BUFFER_COUNT \<Longrightarrow>
     rc (pcs ! i) = 0 \<and> (\<forall>j. k \<le> j \<and> j < i \<longrightarrow> rc (pcs ! j) \<noteq> 0 \<and> (ndebug \<or> 0 \<le> rc (pcs ! j)))"
proof (induction ndebug pcs k rule: UpdateBuffer_scan.induct)
  case (1 ndebug pcs index)
  show ?case
  proof (cases "index < BUFFER_COUNT")
    case True
    show ?thesis
    proof (cases "rc (pcs ! index) = 0")
      case z: True
      with True "1.prems" have "i = index"
        by (auto simp: UpdateBuffer_scan.simps [of ndebug pcs index] split: if_splits)
      with z show ?thesis by auto
    next
      case nz: False
      have eq: "UpdateBuffer_scan ndebug pcs index =
          (if \<not> ndebug \<and> \<not> rc (pcs ! index) \<ge> 0 then AssertFailed
           else UpdateBuffer_scan ndebug pcs (Suc index))"
        using True nz by (simp add: UpdateBuffer_scan.simps [of ndebug pcs index])
      have a: "ndebug \<or> 0 \<le> rc (pcs ! index)"
        using "1.prems"(1) unfolding eq by (cases "\<not> ndebug \<and> \<not> rc (pcs ! index) \<ge> 0") simp_all
      have r: "UpdateBuffer_scan ndebug pcs (Suc index) = Ret i"
        using "1.prems"(1) a unfolding eq by (cases "\<not> ndebug \<and> \<not> rc (pcs ! index) \<ge> 0") simp_all
      from "1.IH" [OF True _ nz r "1.prems"(2)] a
      have ih: "rc (pcs ! i) = 0 \<and> (\<forall>j. Suc index \<le> j \<and> j < i \<longrightarrow> rc (pcs ! j) \<noteq> 0 \<and> (ndebug \<or> 0 \<le> rc (pcs ! j)))"
        by auto
      show ?thesis
      proof (intro conjI allI impI)
        show "rc (pcs ! i) = 0" using ih by simp
      next
        fix j assume "index \<le> j \<and> j < i"
        then consider "j = index" | "Suc index \<le> j \<and> j < i" by force
        then show "rc (pcs ! j) \<noteq> 0" using nz ih by cases auto
      next
        fix j assume "index \<le> j \<and> j < i"
        then consider "j = index" | "Suc index \<le> j \<and> j < i" by force
        then show "ndebug \<or> 0 \<le> rc (pcs ! j)" using a ih by cases auto
      qed
    qed
  next
    case False
    with "1.prems" show ?thesis
      by (auto simp: UpdateBuffer_scan.simps [of ndebug pcs index] split: if_splits)
  qed
qed

lemma scan_lowest:
  "k \<le> i \<Longrightarrow> i < BUFFER_COUNT \<Longrightarrow> rc (pcs ! i) = 0 \<Longrightarrow>
   (\<forall>j. k \<le> j \<and> j < i \<longrightarrow> rc (pcs ! j) \<noteq> 0 \<and> (ndebug \<or> 0 \<le> rc (pcs ! j))) \<Longrightarrow>
   UpdateBuffer_scan ndebug pcs k = Ret i"
proof (induction ndebug pcs k rule: UpdateBuffer_scan.induct)
  case (1 ndebug pcs index)
  show ?case
  proof (cases "index = i")
    case True
    with "1.prems" show ?thesis
      by (subst UpdateBuffer_scan.simps) simp
  next
    case False
    with "1.prems" have lt: "index < i" and nz: "rc (pcs ! index) \<noteq> 0"
      and a: "ndebug \<or> 0 \<le> rc (pcs ! index)" by auto
    from lt "1.prems" have b: "index < BUFFER_COUNT" by simp
    have "UpdateBuffer_scan ndebug pcs (Suc index) = Ret i"
      using "1.IH" [OF b _ nz] a lt "1.prems" by auto
    with b nz a show ?thesis
      by (auto simp: UpdateBuffer_scan.simps [of ndebug pcs index])
  qed
qed

lemma scan_none:
  "k \<le> BUFFER_COUNT \<Longrightarrow>
   (\<forall>j. k \<le> j \<and> j < BUFFER_COUNT \<longrightarrow> rc (pcs ! j) \<noteq> 0 \<and> (ndebug \<or> 0 \<le> rc (pcs ! j))) \<Longrightarrow>
   UpdateBuffer_scan ndebug pcs k = Ret BUFFER_COUNT"
proof (induction ndebug pcs k rule: UpdateBuffer_scan.induct)
  case (1 ndebug pcs index)
  show ?case
  proof (cases "index < BUFFER_COUNT")
    case True
    with "1.prems" have nz: "rc (pcs ! index) \<noteq> 0" and a: "ndebug \<or> 0 \<le> rc (pcs ! index)" by auto
    have "UpdateBuffer_scan ndebug pcs (Suc index) = Ret BUFFER_COUNT"
      using "1.IH" [OF True _ nz] a True "1.prems" by auto
    with True nz a show ?thesis
      by (auto simp: UpdateBuffer_scan.simps [of ndebug pcs index])
  next
    case False
    with "1.prems" show ?thesis
      by (subst UpdateBuffer_scan.simps) simp
  qed
qed


lemma rc_only_fields:
  assumes "rc_only T s s'"
  shows "sys_lock s' = sys_lock s" "sys_cond s' = sys_cond s"
    "i_visible_width s' = i_visible_width s" "i_visible_height s' = i_visible_height s"
    "current_flip s' = current_flip s" "pixelbuffers s' = pixelbuffers s"
    "framebuffers s' = framebuffers s" "textures s' = textures s" "current s' = current s"
    "length (picture_contexts s') = length (picture_contexts s)"
  using assms unfolding rc_only_def by auto

lemma rc_only_ctx:
  assumes "rc_only T s s'" and "j < length (picture_contexts s)"
  shows "picture_contexts s' ! j = (picture_contexts s ! j)\<lparr>rc := rc (picture_contexts s' ! j)\<rparr>"
    and "j \<notin> T \<Longrightarrow> picture_contexts s' ! j = picture_contexts s ! j"
proof -
  from assms obtain pcs es where 1: "s' = s\<lparr>picture_contexts := pcs, events := events s @ es\<rparr>"
    and l1: "length pcs = length (picture_contexts s)"
    and p1: "\<forall>j < length pcs. pcs ! j = (picture_contexts s ! j)\<lparr>rc := rc (pcs ! j)\<rparr>
              \<and> (j \<notin> T \<longrightarrow> rc (pcs ! j) = rc (picture_contexts s ! j))"
    unfolding rc_only_def by blast
  from p1 l1 assms(2) have a: "pcs ! j = (picture_contexts s ! j)\<lparr>rc := rc (pcs ! j)\<rparr>"
    and b: "j \<notin> T \<longrightarrow> rc (pcs ! j) = rc (picture_contexts s ! j)" by simp_all
  show "picture_contexts s' ! j = (picture_contexts s ! j)\<lparr>rc := rc (picture_contexts s' ! j)\<rparr>"
    using a 1 by simp
  show "picture_contexts s' ! j = picture_contexts s ! j" if "j \<notin> T"
  proof -
    have "pcs ! j = (picture_contexts s ! j)\<lparr>rc := rc (picture_contexts s ! j)\<rparr>"
      using a b that by simp
    then show ?thesis using 1 by simp
  qed
qed

lemma rc_only_events:
  assumes "rc_only T s s'"
  shows "\<exists>es. events s' = events s @ es \<and> (\<forall>g. GL g \<notin> set es)
           \<and> EglMakeCurrent True \<notin> set es \<and> EglMakeCurrent False \<notin> set es"
  using assms unfolding rc_only_def by auto

lemma UpdateBuffer_loop_found:
  "UpdateBuffer_scan ndebug (picture_contexts s) 0 = Ret i \<Longrightarrow> i < BUFFER_COUNT \<Longrightarrow>
     UpdateBuffer_loop ndebug ws s = Ret (i, s)"
  by (cases ws) simp_all

lemma UpdateBuffer_loop_Ret:
  "UpdateBuffer_loop ndebug ws s = Ret (i, s') \<Longrightarrow> length (picture_contexts s) = BUFFER_COUNT \<Longrightarrow>
     rc_only (touched ws) s s' \<and> UpdateBuffer_scan ndebug (picture_contexts s') 0 = Ret i \<and> i < BUFFER_COUNT"
proof (induction ws arbitrary: s)
  case Nil
  from Nil.prems(1) have "obind (UpdateBuffer_scan ndebug (picture_contexts s) 0)
       (\<lambda>index. if index < BUFFER_COUNT then Ret (index, s)
          else Blocked (emit (CondWait (sys_cond s) (sys_lock s)) s)) = Ret (i, s')"
    by (simp only: UpdateBuffer_loop.simps)
  then obtain k where k: "UpdateBuffer_scan ndebug (picture_contexts s) 0 = Ret k"
    and rest: "(if k < BUFFER_COUNT then Ret (k, s)
          else Blocked (emit (CondWait (sys_cond s) (sys_lock s)) s)) = Ret (i, s')"
    by (rule obind_RetE)
  from rest have "k < BUFFER_COUNT" "i = k" "s' = s"
    by (simp_all split: if_splits)
  with k show ?case by (simp add: rc_only_refl)
next
  case (Cons w ws)
  from Cons.prems(1) have "obind (UpdateBuffer_scan ndebug (picture_contexts s) 0)
       (\<lambda>index. if index < BUFFER_COUNT then Ret (index, s)
          else obind (consumers w (emit (CondWait (sys_cond s) (sys_lock s)) s))
                 (\<lambda>s1. UpdateBuffer_loop ndebug ws
                         (emit (CondWoken (sys_cond s) (sys_lock s)) s1))) = Ret (i, s')"
    by (simp only: UpdateBuffer_loop.simps)
  then obtain k where k: "UpdateBuffer_scan ndebug (picture_contexts s) 0 = Ret k"
    and rest: "(if k < BUFFER_COUNT then Ret (k, s)
          else obind (consumers w (emit (CondWait (sys_cond s) (sys_lock s)) s))
                 (\<lambda>s1. UpdateBuffer_loop ndebug ws
                         (emit (CondWoken (sys_cond s) (sys_lock s)) s1))) = Ret (i, s')"
    by (rule obind_RetE)
  show ?case
  proof (cases "k < BUFFER_COUNT")
    case True
    with rest have "i = k" "s' = s" by simp_all
    with True k show ?thesis by (simp add: rc_only_refl)
  next
    case False
    with rest have "obind (consumers w (emit (CondWait (sys_cond s) (sys_lock s)) s))
                 (\<lambda>s1. UpdateBuffer_loop ndebug ws
                         (emit (CondWoken (sys_cond s) (sys_lock s)) s1)) = Ret (i, s')"
      by simp
    then obtain s1 where c: "consumers w (emit (CondWait (sys_cond s) (sys_lock s)) s) = Ret s1"
      and l: "UpdateBuffer_loop ndebug ws (emit (CondWoken (sys_cond s) (sys_lock s)) s1) = Ret (i, s')"
      by (rule obind_RetE)
    have a: "rc_only (touched (w # ws)) s (emit (CondWait (sys_cond s) (sys_lock s)) s)"
      by (rule rc_only_emit) simp_all
    have len0: "length (picture_contexts (emit (CondWait (sys_cond s) (sys_lock s)) s)) = BUFFER_COUNT"
      using Cons.prems(2) by (simp add: emit_def)
    have b: "rc_only (slot_of ` set w) (emit (CondWait (sys_cond s) (sys_lock s)) s) s1"
      using consumers_rc_only [OF c len0] .
    have len1: "length (picture_contexts s1) = BUFFER_COUNT"
      using rc_only_fields(10) [OF b] len0 by simp
    have d: "rc_only (touched (w # ws)) s1 (emit (CondWoken (sys_cond s) (sys_lock s)) s1)"
      by (rule rc_only_emit) simp_all
    have len2: "length (picture_contexts (emit (CondWoken (sys_cond s) (sys_lock s)) s1)) = BUFFER_COUNT"
      using len1 by (simp add: emit_def)
    from Cons.IH [OF l len2]
    have e: "rc_only (touched ws) (emit (CondWoken (sys_cond s) (sys_lock s)) s1) s'"
      and f: "UpdateBuffer_scan ndebug (picture_contexts s') 0 = Ret i \<and> i < BUFFER_COUNT" by simp_all
    have b': "rc_only (touched (w # ws)) (emit (CondWait (sys_cond s) (sys_lock s)) s) s1"
      by (rule rc_only_mono [OF b]) (auto simp: touched_def)
    have e': "rc_only (touched (w # ws)) (emit (CondWoken (sys_cond s) (sys_lock s)) s1) s'"
      by (rule rc_only_mono [OF e]) (auto simp: touched_def)
    have "rc_only (touched (w # ws)) s s'"
      by (rule rc_only_trans [OF a rc_only_trans [OF b' rc_only_trans [OF d e']]])
    with f show ?thesis by simp
  qed
qed


lemma Swap_Ret:
  assumes "Swap ndebug pixels alloc_ok ws sys = Ret (out, sys')"
    and "length (picture_contexts sys) = BUFFER_COUNT"
  shows "\<exists>i s8. current_flip sys < BUFFER_COUNT
      \<and> UpdateBuffer_loop ndebug ws (Swap_issued pixels sys) = Ret (i, s8)
      \<and> (alloc_ok \<or> ndebug)
      \<and> out = (if alloc_ok then Some \<lparr>p_pixels = pixels, i_lines = to_GLsizei (i_visible_height sys),
                    i_pitch = to_GLsizei (i_visible_width sys) * 4, context_p = Some (current_flip sys)\<rparr>
               else None)
      \<and> sys' = s8\<lparr>current_flip := i,
            picture_contexts := (picture_contexts s8)[current_flip sys :=
               (if alloc_ok then (picture_contexts s8 ! current_flip sys)\<lparr>vctx := NULL\<rparr>
                else (picture_contexts s8 ! current_flip sys)\<lparr>rc := rc (picture_contexts s8 ! current_flip sys) - 1\<rparr>)],
            events := events s8 @ [MutexUnlock (sys_lock s8),
                GL (BindFramebuffer GL_DRAW_FRAMEBUFFER (framebuffers s8 ! i))]
              @ (if current s8 then [] else [EglMakeCurrent False])
              @ (if alloc_ok then [] else [RcDecr (current_flip sys)])\<rparr>"
proof -
  let ?cur = "current_flip sys"
  from assms(1) have c: "?cur < BUFFER_COUNT"
    by (simp add: Swap_def split: if_splits)
  have iss: "\<And>wh size s7. int_mul (to_GLsizei (i_visible_width sys)) (to_GLsizei (i_visible_height sys)) = Ret wh
     \<Longrightarrow> int_mul wh 4 = Ret size \<Longrightarrow>
     rc_incr ?cur (set_buffer_mapping ?cur pixels (emit (GL GetIntegerv) (emit (GL (MapBufferRange size))
        (emit (GL (ReadPixels (to_GLsizei (i_visible_width sys)) (to_GLsizei (i_visible_height sys))))
          (if buffer_mapping (picture_contexts sys ! ?cur) \<noteq> NULL then emit (GL UnmapBuffer)
             (emit (GL (BindFramebuffer GL_FRAMEBUFFER (framebuffers sys ! ?cur)))
                   (emit (GL (BindBuffer (pixelbuffers sys ! ?cur)))
                      (if \<not> current sys then emit (EglMakeCurrent True) sys else sys)))
           else (emit (GL (BindFramebuffer GL_FRAMEBUFFER (framebuffers sys ! ?cur)))
                   (emit (GL (BindBuffer (pixelbuffers sys ! ?cur)))
                      (if \<not> current sys then emit (EglMakeCurrent True) sys else sys)))))))) = Ret s7
     \<Longrightarrow> emit (MutexLock (sys_lock s7)) s7 = Swap_issued pixels sys"
    using c assms(2)
    by (auto simp: int_mul_def rc_incr_def set_rc_def set_buffer_mapping_def emit_def Swap_issued_def
        Let_def split: if_splits)
  obtain wh size s7 s8 pitch where
    1: "int_mul (to_GLsizei (i_visible_width sys)) (to_GLsizei (i_visible_height sys)) = Ret wh"
    and 2: "int_mul wh 4 = Ret size"
    and 3: "rc_incr ?cur (set_buffer_mapping ?cur pixels (emit (GL GetIntegerv) (emit (GL (MapBufferRange size))
        (emit (GL (ReadPixels (to_GLsizei (i_visible_width sys)) (to_GLsizei (i_visible_height sys))))
          (if buffer_mapping (picture_contexts sys ! ?cur) \<noteq> NULL then emit (GL UnmapBuffer)
             (emit (GL (BindFramebuffer GL_FRAMEBUFFER (framebuffers sys ! ?cur)))
                   (emit (GL (BindBuffer (pixelbuffers sys ! ?cur)))
                      (if \<not> current sys then emit (EglMakeCurrent True) sys else sys)))
           else (emit (GL (BindFramebuffer GL_FRAMEBUFFER (framebuffers sys ! ?cur)))
                   (emit (GL (BindBuffer (pixelbuffers sys ! ?cur)))
                      (if \<not> current sys then emit (EglMakeCurrent True) sys else sys)))))))) = Ret s7"
    and 4: "UpdateBuffer ndebug ws s7 = Ret s8"
    and 5: "int_mul (to_GLsizei (i_visible_width sys)) 4 = Ret pitch"
    and 6: "assert_c ndebug (picture_NewFromResource alloc_ok pixels (to_GLsizei (i_visible_height sys)) pitch \<noteq> None)
       (case picture_NewFromResource alloc_ok pixels (to_GLsizei (i_visible_height sys)) pitch of
          None \<Rightarrow> obind (rc_decr ?cur (if \<not> current s8 then emit (EglMakeCurrent False) s8 else s8))
                    (\<lambda>s10. Ret (None, s10))
        | Some pic \<Rightarrow> Ret (Some (pic\<lparr>context_p := Some ?cur\<rparr>),
              set_vctx ?cur NULL (if \<not> current s8 then emit (EglMakeCurrent False) s8 else s8))) = Ret (out, sys')"
    using assms(1) c unfolding Swap_def Let_def
    by (simp add: obind_eq_Ret) blast
  have 7: "emit (MutexLock (sys_lock s7)) s7 = Swap_issued pixels sys"
    using iss [OF 1 2 3] .
  from 4 7 obtain i s8' where 8: "UpdateBuffer_loop ndebug ws (Swap_issued pixels sys) = Ret (i, s8')"
    and 9: "s8 = BindDrawFramebuffer ((emit (MutexUnlock (sys_lock s8')) s8')\<lparr>current_flip := i\<rparr>)"
    by (auto simp: UpdateBuffer_def obind_eq_Ret)
  from 5 have p: "pitch = to_GLsizei (i_visible_width sys) * 4"
    by (auto simp: int_mul_def split: if_splits)
  have cur8: "current s8 = current s8'" and pc8: "picture_contexts s8 = picture_contexts s8'"
    and ev8: "events s8 = events s8' @ [MutexUnlock (sys_lock s8'),
                GL (BindFramebuffer GL_DRAW_FRAMEBUFFER (framebuffers s8' ! i))]"
    using 9 by (simp_all add: BindDrawFramebuffer_def emit_def)
  show ?thesis
  proof (cases alloc_ok)
    case True
    with 6 p have o: "out = Some \<lparr>p_pixels = pixels, i_lines = to_GLsizei (i_visible_height sys),
                    i_pitch = to_GLsizei (i_visible_width sys) * 4, context_p = Some ?cur\<rparr>"
      and s: "sys' = set_vctx ?cur NULL (if \<not> current s8 then emit (EglMakeCurrent False) s8 else s8)"
      by (simp_all add: assert_c_def picture_NewFromResource_def)
    have "sys' = s8'\<lparr>current_flip := i,
            picture_contexts := (picture_contexts s8')[?cur := (picture_contexts s8' ! ?cur)\<lparr>vctx := NULL\<rparr>],
            events := events s8' @ [MutexUnlock (sys_lock s8'),
                GL (BindFramebuffer GL_DRAW_FRAMEBUFFER (framebuffers s8' ! i))]
              @ (if current s8' then [] else [EglMakeCurrent False])\<rparr>"
      unfolding s 9 by (simp add: set_vctx_def emit_def BindDrawFramebuffer_def)
    with True o 8 c show ?thesis
      by (intro exI [of _ i] exI [of _ s8'] conjI) simp_all
  next
    case False
    with 6 have nd: ndebug and o: "out = None"
      and s: "rc_decr ?cur (if \<not> current s8 then emit (EglMakeCurrent False) s8 else s8) = Ret sys'"
      by (auto simp: assert_c_def picture_NewFromResource_def obind_eq_Ret split: if_splits)
    have "sys' = s8'\<lparr>current_flip := i,
            picture_contexts := (picture_contexts s8')[?cur :=
               (picture_contexts s8' ! ?cur)\<lparr>rc := rc (picture_contexts s8' ! ?cur) - 1\<rparr>],
            events := events s8' @ [MutexUnlock (sys_lock s8'),
                GL (BindFramebuffer GL_DRAW_FRAMEBUFFER (framebuffers s8' ! i))]
              @ (if current s8' then [] else [EglMakeCurrent False]) @ [RcDecr ?cur]\<rparr>"
      using s unfolding 9
      by (auto simp: rc_decr_def set_rc_def emit_def BindDrawFramebuffer_def split: if_splits)
    with False nd o 8 c show ?thesis
      by (intro exI [of _ i] exI [of _ s8'] conjI) simp_all
  qed
qed




lemma obind_eq_Blocked:
  "obind m f = Blocked s \<longleftrightarrow> m = Blocked s \<or> (\<exists>x. m = Ret x \<and> f x = Blocked s)"
  by (cases m) (simp_all add: obind_def)

lemma consumer_step_not_Blocked: "consumer_step x s \<noteq> Blocked b"
  by (cases x)
    (auto simp: picture_context_copy_def picture_context_destroy_def rc_incr_def rc_decr_def
      obind_eq_Blocked Let_def)

lemma consumers_not_Blocked: "consumers xs s \<noteq> Blocked b"
  by (induction xs arbitrary: s) (auto simp: obind_eq_Blocked consumer_step_not_Blocked)

lemma Swap_issued_simps [simp]:
  "sys_lock (Swap_issued p s) = sys_lock s"
  "sys_cond (Swap_issued p s) = sys_cond s"
  "i_visible_width (Swap_issued p s) = i_visible_width s"
  "i_visible_height (Swap_issued p s) = i_visible_height s"
  "current_flip (Swap_issued p s) = current_flip s"
  "pixelbuffers (Swap_issued p s) = pixelbuffers s"
  "framebuffers (Swap_issued p s) = framebuffers s"
  "textures (Swap_issued p s) = textures s"
  "current (Swap_issued p s) = current s"
  "length (picture_contexts (Swap_issued p s)) = length (picture_contexts s)"
  by (simp_all add: Swap_issued_def Let_def)

lemma Swap_issued_ctx:
  "j \<noteq> current_flip s \<Longrightarrow> picture_contexts (Swap_issued p s) ! j = picture_contexts s ! j"
  "current_flip s < length (picture_contexts s) \<Longrightarrow>
     picture_contexts (Swap_issued p s) ! current_flip s =
       (picture_contexts s ! current_flip s)\<lparr>buffer_mapping := p, rc := rc (picture_contexts s ! current_flip s) + 1\<rparr>"
  by (simp_all add: Swap_issued_def Let_def)

lemma scan_not_Blocked: "UpdateBuffer_scan ndebug pcs k \<noteq> Blocked b"
proof (induction ndebug pcs k rule: UpdateBuffer_scan.induct)
  case (1 ndebug pcs index)
  then show ?case
    by (subst UpdateBuffer_scan.simps) auto
qed

lemma UpdateBuffer_loop_Blocked:
  "UpdateBuffer_loop ndebug ws s = Blocked s' \<Longrightarrow> length (picture_contexts s) = BUFFER_COUNT \<Longrightarrow>
     rc_only (touched ws) s s'"
proof (induction ws arbitrary: s)
  case Nil
  from Nil.prems(1) have "obind (UpdateBuffer_scan ndebug (picture_contexts s) 0)
       (\<lambda>index. if index < BUFFER_COUNT then Ret (index, s)
          else Blocked (emit (CondWait (sys_cond s) (sys_lock s)) s)) = Blocked s'"
    by (simp only: UpdateBuffer_loop.simps)
  then have "s' = emit (CondWait (sys_cond s) (sys_lock s)) s"
    unfolding obind_eq_Blocked
    by (auto split: if_splits simp: scan_not_Blocked)
  then show ?case
    by (simp add: rc_only_emit)
next
  case (Cons w ws)
  let ?s0 = "emit (CondWait (sys_cond s) (sys_lock s)) s"
  from Cons.prems(1) have "obind (UpdateBuffer_scan ndebug (picture_contexts s) 0)
       (\<lambda>index. if index < BUFFER_COUNT then Ret (index, s)
          else obind (consumers w ?s0)
                 (\<lambda>s1. UpdateBuffer_loop ndebug ws
                         (emit (CondWoken (sys_cond s) (sys_lock s)) s1))) = Blocked s'"
    by (simp only: UpdateBuffer_loop.simps)
  then obtain s1 where c: "consumers w ?s0 = Ret s1"
    and l: "UpdateBuffer_loop ndebug ws (emit (CondWoken (sys_cond s) (sys_lock s)) s1) = Blocked s'"
    unfolding obind_eq_Blocked
    by (auto split: if_splits simp: scan_not_Blocked consumers_not_Blocked obind_eq_Blocked)
  have a: "rc_only (touched (w # ws)) s ?s0"
    by (rule rc_only_emit) simp_all
  have len0: "length (picture_contexts ?s0) = BUFFER_COUNT"
    using Cons.prems(2) by (simp add: emit_def)
  have b: "rc_only (slot_of ` set w) ?s0 s1"
    using consumers_rc_only [OF c len0] .
  have len1: "length (picture_contexts s1) = BUFFER_COUNT"
    using rc_only_fields(10) [OF b] len0 by simp
  have d: "rc_only (touched (w # ws)) s1 (emit (CondWoken (sys_cond s) (sys_lock s)) s1)"
    by (rule rc_only_emit) simp_all
  have len2: "length (picture_contexts (emit (CondWoken (sys_cond s) (sys_lock s)) s1)) = BUFFER_COUNT"
    using len1 by (simp add: emit_def)
  have e: "rc_only (touched ws) (emit (CondWoken (sys_cond s) (sys_lock s)) s1) s'"
    using Cons.IH [OF l len2] .
  have b': "rc_only (touched (w # ws)) ?s0 s1"
    by (rule rc_only_mono [OF b]) (auto simp: touched_def)
  have e': "rc_only (touched (w # ws)) (emit (CondWoken (sys_cond s) (sys_lock s)) s1) s'"
    by (rule rc_only_mono [OF e]) (auto simp: touched_def)
  show ?case
    by (rule rc_only_trans [OF a rc_only_trans [OF b' rc_only_trans [OF d e']]])
qed

lemma Swap_Blocked:
  assumes "Swap ndebug pixels alloc_ok ws sys = Blocked sys'"
    and "length (picture_contexts sys) = BUFFER_COUNT"
  shows "current_flip sys < BUFFER_COUNT
      \<and> UpdateBuffer_loop ndebug ws (Swap_issued pixels sys) = Blocked sys'"
proof -
  let ?cur = "current_flip sys"
  from assms(1) have c: "?cur < BUFFER_COUNT"
    by (simp add: Swap_def split: if_splits)
  have nb: "\<And>a b x. int_mul a b \<noteq> Blocked x" "\<And>i s x. rc_incr i s \<noteq> Blocked x"
    "\<And>i s x. rc_decr i s \<noteq> Blocked x"
    by (simp_all add: int_mul_def rc_incr_def rc_decr_def)
  have iss: "\<And>wh size s7. int_mul (to_GLsizei (i_visible_width sys)) (to_GLsizei (i_visible_height sys)) = Ret wh
     \<Longrightarrow> int_mul wh 4 = Ret size \<Longrightarrow>
     rc_incr ?cur (set_buffer_mapping ?cur pixels (emit (GL GetIntegerv) (emit (GL (MapBufferRange size))
        (emit (GL (ReadPixels (to_GLsizei (i_visible_width sys)) (to_GLsizei (i_visible_height sys))))
          (if buffer_mapping (picture_contexts sys ! ?cur) \<noteq> NULL then emit (GL UnmapBuffer)
             (emit (GL (BindFramebuffer GL_FRAMEBUFFER (framebuffers sys ! ?cur)))
                   (emit (GL (BindBuffer (pixelbuffers sys ! ?cur)))
                      (if \<not> current sys then emit (EglMakeCurrent True) sys else sys)))
           else (emit (GL (BindFramebuffer GL_FRAMEBUFFER (framebuffers sys ! ?cur)))
                   (emit (GL (BindBuffer (pixelbuffers sys ! ?cur)))
                      (if \<not> current sys then emit (EglMakeCurrent True) sys else sys)))))))) = Ret s7
     \<Longrightarrow> emit (MutexLock (sys_lock s7)) s7 = Swap_issued pixels sys"
    using c assms(2)
    by (auto simp: int_mul_def rc_incr_def set_rc_def set_buffer_mapping_def emit_def Swap_issued_def
        Let_def split: if_splits)
  obtain wh size s7 where
    1: "int_mul (to_GLsizei (i_visible_width sys)) (to_GLsizei (i_visible_height sys)) = Ret wh"
    and 2: "int_mul wh 4 = Ret size"
    and 3: "rc_incr ?cur (set_buffer_mapping ?cur pixels (emit (GL GetIntegerv) (emit (GL (MapBufferRange size))
        (emit (GL (ReadPixels (to_GLsizei (i_visible_width sys)) (to_GLsizei (i_visible_height sys))))
          (if buffer_mapping (picture_contexts sys ! ?cur) \<noteq> NULL then emit (GL UnmapBuffer)
             (emit (GL (BindFramebuffer GL_FRAMEBUFFER (framebuffers sys ! ?cur)))
                   (emit (GL (BindBuffer (pixelbuffers sys ! ?cur)))
                      (if \<not> current sys then emit (EglMakeCurrent True) sys else sys)))
           else (emit (GL (BindFramebuffer GL_FRAMEBUFFER (framebuffers sys ! ?cur)))
                   (emit (GL (BindBuffer (pixelbuffers sys ! ?cur)))
                      (if \<not> current sys then emit (EglMakeCurrent True) sys else sys)))))))) = Ret s7"
    and 4: "UpdateBuffer ndebug ws s7 = Blocked sys'"
    using assms(1) c unfolding Swap_def Let_def
    by (simp add: obind_eq_Blocked nb assert_c_def picture_NewFromResource_def
          split: if_splits)
  have 7: "emit (MutexLock (sys_lock s7)) s7 = Swap_issued pixels sys"
    using iss [OF 1 2 3] .
  from 4 7 have "UpdateBuffer_loop ndebug ws (Swap_issued pixels sys) = Blocked sys'"
    by (auto simp: UpdateBuffer_def obind_eq_Blocked)
  with c show ?thesis by simp
qed

lemma sint_eq_uint_32: "uint (w :: 32 word) < 2 ^ 31 \<Longrightarrow> sint w = uint w"
proof -
  assume a: "uint w < 2 ^ 31"
  have c: "- (2 ^ 31) \<le> uint w"
    by (rule order_trans [of _ 0]) simp_all
  have "signed_take_bit 31 (uint w) = uint w"
    using signed_take_bit_int_eq_self [OF c a] .
  then show ?thesis by (simp add: sint_uint)
qed

lemma Swap_eq:
  assumes "current_flip sys < BUFFER_COUNT" and "length (picture_contexts sys) = BUFFER_COUNT"
    and "dims_ok sys" and "rc (picture_contexts sys ! current_flip sys) \<noteq> INT_MAX"
  shows "Swap ndebug pixels alloc_ok ws sys =
     obind (UpdateBuffer_loop ndebug ws (Swap_issued pixels sys))
       (\<lambda>(i, s8).
          if alloc_ok
          then Ret (Some \<lparr>p_pixels = pixels, i_lines = to_GLsizei (i_visible_height sys),
                      i_pitch = to_GLsizei (i_visible_width sys) * 4,
                      context_p = Some (current_flip sys)\<rparr>,
                    Swap_returned True (current_flip sys) i s8)
          else if \<not> ndebug then AssertFailed
          else if rc (picture_contexts s8 ! current_flip sys) = INT_MIN then Undefined
          else Ret (None, Swap_returned False (current_flip sys) i s8))"
proof -
  let ?cur = "current_flip sys"
  let ?w = "to_GLsizei (i_visible_width sys)"
  let ?h = "to_GLsizei (i_visible_height sys)"
  let ?s4 = "emit (GL (ReadPixels ?w ?h))
          (if buffer_mapping (picture_contexts sys ! ?cur) \<noteq> NULL then emit (GL UnmapBuffer)
             (emit (GL (BindFramebuffer GL_FRAMEBUFFER (framebuffers sys ! ?cur)))
                   (emit (GL (BindBuffer (pixelbuffers sys ! ?cur)))
                      (if \<not> current sys then emit (EglMakeCurrent True) sys else sys)))
           else (emit (GL (BindFramebuffer GL_FRAMEBUFFER (framebuffers sys ! ?cur)))
                   (emit (GL (BindBuffer (pixelbuffers sys ! ?cur)))
                      (if \<not> current sys then emit (EglMakeCurrent True) sys else sys))))"
  let ?s6 = "set_buffer_mapping ?cur pixels (emit (GL GetIntegerv) (emit (GL (MapBufferRange (?w * ?h * 4))) ?s4))"
  let ?s7 = "emit (RcIncr ?cur) (set_rc ?cur (rc (picture_contexts ?s6 ! ?cur) + 1) ?s6)"
  from assms(3) have m: "int_mul ?w ?h = Ret (?w * ?h)" "int_mul (?w * ?h) 4 = Ret (?w * ?h * 4)"
    "int_mul ?w 4 = Ret (?w * 4)"
    by (simp_all add: dims_ok_def int_mul_def Let_def)
  have rc6: "rc (picture_contexts ?s6 ! ?cur) = rc (picture_contexts sys ! ?cur)"
    using assms(1,2) by (simp add: set_buffer_mapping_def emit_def)
  have i7: "rc_incr ?cur ?s6 = Ret ?s7"
    unfolding rc_incr_def using assms(4) rc6 by simp
  have e7: "emit (MutexLock (sys_lock ?s7)) ?s7 = Swap_issued pixels sys"
    using assms(1,2)
    by (simp add: set_rc_def set_buffer_mapping_def emit_def Swap_issued_def Let_def)
  have u: "UpdateBuffer ndebug ws ?s7 =
      obind (UpdateBuffer_loop ndebug ws (Swap_issued pixels sys))
       (\<lambda>(index, s). Ret (BindDrawFramebuffer
           ((emit (MutexUnlock (sys_lock s)) s)\<lparr>current_flip := index\<rparr>)))"
    unfolding UpdateBuffer_def e7 ..
  have "Swap ndebug pixels alloc_ok ws sys =
      obind (UpdateBuffer ndebug ws ?s7) (\<lambda>s8.
            let s9 = (if \<not> current s8 then emit (EglMakeCurrent False) s8 else s8) in
              let output = picture_NewFromResource alloc_ok pixels ?h (?w * 4) in
              assert_c ndebug (output \<noteq> None)
                (case output of
                   None \<Rightarrow> obind (rc_decr ?cur s9) (\<lambda>s10. Ret (None, s10))
                 | Some pic \<Rightarrow>
                     Ret (Some (pic\<lparr>context_p := Some ?cur\<rparr>), set_vctx ?cur NULL s9)))"
    unfolding Swap_def Let_def using assms(1) m i7 by simp
  also have "\<dots> = obind (UpdateBuffer_loop ndebug ws (Swap_issued pixels sys))
       (\<lambda>(i, s8).
          if alloc_ok
          then Ret (Some \<lparr>p_pixels = pixels, i_lines = ?h, i_pitch = ?w * 4, context_p = Some ?cur\<rparr>,
                    Swap_returned True ?cur i s8)
          else if \<not> ndebug then AssertFailed
          else if rc (picture_contexts s8 ! ?cur) = INT_MIN then Undefined
          else Ret (None, Swap_returned False ?cur i s8))"
    unfolding u
    by (cases "UpdateBuffer_loop ndebug ws (Swap_issued pixels sys)")
      (auto simp: assert_c_def picture_NewFromResource_def Swap_returned_def set_vctx_def rc_decr_def
        set_rc_def emit_def BindDrawFramebuffer_def Let_def)
  finally show ?thesis .
qed

text \<open>A returned Swap, with the facts about the state after the wait.\<close>

lemma Swap_Ret_facts:
  assumes "Swap ndebug pixels alloc_ok ws sys = Ret (out, sys')"
    and "length (picture_contexts sys) = BUFFER_COUNT"
  obtains i s8 where "current_flip sys < BUFFER_COUNT"
    and "rc_only (touched ws) (Swap_issued pixels sys) s8"
    and "UpdateBuffer_scan ndebug (picture_contexts s8) 0 = Ret i" and "i < BUFFER_COUNT"
    and "alloc_ok \<or> ndebug"
    and "out = (if alloc_ok then Some \<lparr>p_pixels = pixels, i_lines = to_GLsizei (i_visible_height sys),
                    i_pitch = to_GLsizei (i_visible_width sys) * 4, context_p = Some (current_flip sys)\<rparr>
               else None)"
    and "sys' = s8\<lparr>current_flip := i,
            picture_contexts := (picture_contexts s8)[current_flip sys :=
               (if alloc_ok then (picture_contexts s8 ! current_flip sys)\<lparr>vctx := NULL\<rparr>
                else (picture_contexts s8 ! current_flip sys)\<lparr>rc := rc (picture_contexts s8 ! current_flip sys) - 1\<rparr>)],
            events := events s8 @ [MutexUnlock (sys_lock sys),
                GL (BindFramebuffer GL_DRAW_FRAMEBUFFER (framebuffers sys ! i))]
              @ (if current sys then [] else [EglMakeCurrent False])
              @ (if alloc_ok then [] else [RcDecr (current_flip sys)])\<rparr>"
proof -
  from Swap_Ret [OF assms] obtain i s8 where c: "current_flip sys < BUFFER_COUNT"
    and l: "UpdateBuffer_loop ndebug ws (Swap_issued pixels sys) = Ret (i, s8)"
    and a: "alloc_ok \<or> ndebug"
    and o: "out = (if alloc_ok then Some \<lparr>p_pixels = pixels, i_lines = to_GLsizei (i_visible_height sys),
                    i_pitch = to_GLsizei (i_visible_width sys) * 4, context_p = Some (current_flip sys)\<rparr>
               else None)"
    and s: "sys' = s8\<lparr>current_flip := i,
            picture_contexts := (picture_contexts s8)[current_flip sys :=
               (if alloc_ok then (picture_contexts s8 ! current_flip sys)\<lparr>vctx := NULL\<rparr>
                else (picture_contexts s8 ! current_flip sys)\<lparr>rc := rc (picture_contexts s8 ! current_flip sys) - 1\<rparr>)],
            events := events s8 @ [MutexUnlock (sys_lock s8),
                GL (BindFramebuffer GL_DRAW_FRAMEBUFFER (framebuffers s8 ! i))]
              @ (if current s8 then [] else [EglMakeCurrent False])
              @ (if alloc_ok then [] else [RcDecr (current_flip sys)])\<rparr>"
    by blast
  have len: "length (picture_contexts (Swap_issued pixels sys)) = BUFFER_COUNT"
    using assms(2) by simp
  from UpdateBuffer_loop_Ret [OF l len]
  have r: "rc_only (touched ws) (Swap_issued pixels sys) s8"
    and sc: "UpdateBuffer_scan ndebug (picture_contexts s8) 0 = Ret i" and i: "i < BUFFER_COUNT"
    by simp_all
  note f = rc_only_fields [OF r]
  have s': "sys' = s8\<lparr>current_flip := i,
            picture_contexts := (picture_contexts s8)[current_flip sys :=
               (if alloc_ok then (picture_contexts s8 ! current_flip sys)\<lparr>vctx := NULL\<rparr>
                else (picture_contexts s8 ! current_flip sys)\<lparr>rc := rc (picture_contexts s8 ! current_flip sys) - 1\<rparr>)],
            events := events s8 @ [MutexUnlock (sys_lock sys),
                GL (BindFramebuffer GL_DRAW_FRAMEBUFFER (framebuffers sys ! i))]
              @ (if current sys then [] else [EglMakeCurrent False])
              @ (if alloc_ok then [] else [RcDecr (current_flip sys)])\<rparr>"
    using s f by simp
  show thesis
    by (rule that [OF c r sc i a o s'])
qed

lemma pool0_simps [simp]:
  "sys_lock pool0 = 64" "sys_cond pool0 = 128" "i_visible_width pool0 = 64"
  "i_visible_height pool0 = 64" "current_flip pool0 = 3"
  "pixelbuffers pool0 = [11, 12, 13, 14]" "framebuffers pool0 = [21, 22, 23, 24]"
  "textures pool0 = [31, 32, 33, 34]" "picture_contexts pool0 = [ctx0, ctx0, ctx0, ctx0]"
  "current pool0 = False" "events pool0 = []"
  by (simp_all add: pool0_def)

lemma ctx0_simps [simp]:
  "vctx ctx0 = 7" "buffer_mapping ctx0 = NULL" "rc ctx0 = 0" "lock ctx0 = 64" "cond ctx0 = 128"
  by (simp_all add: ctx0_def)

lemma pool0_ok:
  "length (picture_contexts pool0) = BUFFER_COUNT" "current_flip pool0 < BUFFER_COUNT"
  "dims_ok pool0" "rc (picture_contexts pool0 ! current_flip pool0) \<noteq> INT_MAX"
  by (simp_all add: BUFFER_COUNT_def dims_ok_def to_GLsizei_def INT_MIN_def INT_MAX_def)

lemma Swap_pool0:
  "Swap ndebug p alloc_ok ws pool0 =
     (if alloc_ok
      then Ret (Some \<lparr>p_pixels = p, i_lines = 64, i_pitch = 256, context_p = Some 3\<rparr>,
                Swap_returned True 3 0 (Swap_issued p pool0))
      else if \<not> ndebug then AssertFailed
      else Ret (None, Swap_returned False 3 0 (Swap_issued p pool0)))"
proof -
  have "UpdateBuffer_scan ndebug (picture_contexts (Swap_issued p pool0)) 0 = Ret 0"
    by (rule scan_lowest) (simp_all add: BUFFER_COUNT_def Swap_issued_ctx)
  then have l: "UpdateBuffer_loop ndebug ws (Swap_issued p pool0) = Ret (0, Swap_issued p pool0)"
    by (rule UpdateBuffer_loop_found) (simp add: BUFFER_COUNT_def)
  have r: "rc (picture_contexts (Swap_issued p pool0) ! 3) \<noteq> INT_MIN"
    using Swap_issued_ctx(2) [of pool0 p] by (simp add: INT_MIN_def)
  show ?thesis
    unfolding Swap_eq [OF pool0_ok(2) pool0_ok(1) pool0_ok(3) pool0_ok(4)] l
    using r by (simp add: to_GLsizei_def)
qed

lemma Swap_found:
  assumes "current_flip sys < BUFFER_COUNT" and "length (picture_contexts sys) = BUFFER_COUNT"
    and "dims_ok sys" and "rc (picture_contexts sys ! current_flip sys) \<noteq> INT_MAX"
    and "i < BUFFER_COUNT" and "rc (picture_contexts (Swap_issued pixels sys) ! i) = 0"
    and "\<forall>j<i. passes ndebug (picture_contexts (Swap_issued pixels sys) ! j)"
  shows "Swap ndebug pixels alloc_ok ws sys =
     (if alloc_ok
      then Ret (Some \<lparr>p_pixels = pixels, i_lines = to_GLsizei (i_visible_height sys),
                  i_pitch = to_GLsizei (i_visible_width sys) * 4,
                  context_p = Some (current_flip sys)\<rparr>,
                Swap_returned True (current_flip sys) i (Swap_issued pixels sys))
      else if \<not> ndebug then AssertFailed
      else if rc (picture_contexts (Swap_issued pixels sys) ! current_flip sys) = INT_MIN then Undefined
      else Ret (None, Swap_returned False (current_flip sys) i (Swap_issued pixels sys)))"
proof -
  have "UpdateBuffer_scan ndebug (picture_contexts (Swap_issued pixels sys)) 0 = Ret i"
    using assms(5,6,7) by (intro scan_lowest) (auto simp: passes_def)
  then have l: "UpdateBuffer_loop ndebug ws (Swap_issued pixels sys) = Ret (i, Swap_issued pixels sys)"
    using assms(5) by (rule UpdateBuffer_loop_found)
  show ?thesis
    unfolding Swap_eq [OF assms(1,2,3,4)] l by simp
qed

lemma pool_mapped_simps [simp]:
  "sys_lock pool_mapped = 64" "sys_cond pool_mapped = 128" "i_visible_width pool_mapped = 64"
  "i_visible_height pool_mapped = 64" "current_flip pool_mapped = 3"
  "pixelbuffers pool_mapped = [11, 12, 13, 14]" "framebuffers pool_mapped = [21, 22, 23, 24]"
  "textures pool_mapped = [31, 32, 33, 34]"
  "picture_contexts pool_mapped = [ctx0, ctx0, ctx0, ctx0\<lparr>buffer_mapping := 4096\<rparr>]"
  "current pool_mapped = False" "events pool_mapped = []"
  by (simp_all add: pool_mapped_def)

lemma pool_mapped_ok:
  "length (picture_contexts pool_mapped) = BUFFER_COUNT" "current_flip pool_mapped < BUFFER_COUNT"
  "dims_ok pool_mapped" "rc (picture_contexts pool_mapped ! current_flip pool_mapped) \<noteq> INT_MAX"
  by (simp_all add: BUFFER_COUNT_def dims_ok_def to_GLsizei_def INT_MIN_def INT_MAX_def)

lemma Swap_pool_mapped:
  "Swap False 8192 True [] pool_mapped =
     Ret (Some \<lparr>p_pixels = 8192, i_lines = 64, i_pitch = 256, context_p = Some 3\<rparr>,
          Swap_returned True 3 0 (Swap_issued 8192 pool_mapped))"
proof -
  have z: "(0::nat) < BUFFER_COUNT" by (simp add: BUFFER_COUNT_def)
  have "Swap False 8192 True [] pool_mapped =
     (if True
      then Ret (Some \<lparr>p_pixels = 8192, i_lines = to_GLsizei (i_visible_height pool_mapped),
                  i_pitch = to_GLsizei (i_visible_width pool_mapped) * 4,
                  context_p = Some (current_flip pool_mapped)\<rparr>,
                Swap_returned True (current_flip pool_mapped) 0 (Swap_issued 8192 pool_mapped))
      else if \<not> False then AssertFailed
      else if rc (picture_contexts (Swap_issued 8192 pool_mapped) ! current_flip pool_mapped) = INT_MIN then Undefined
      else Ret (None, Swap_returned False (current_flip pool_mapped) 0 (Swap_issued 8192 pool_mapped)))"
    by (rule Swap_found [OF pool_mapped_ok(2) pool_mapped_ok(1) pool_mapped_ok(3) pool_mapped_ok(4) z])
      (simp_all add: Swap_issued_ctx)
  then show ?thesis by (simp add: to_GLsizei_def)
qed

lemma touched_Nil [simp]: "touched [] = {}"
  by (simp add: touched_def)

lemma InitEGL_success:
  "InitEGL ndebug env w h s = Ret (VLC_SUCCESS, s') \<longleftrightarrow>
     display_ok env \<and> initialize_ok env \<and> choose_config_ok env \<and> cfgc env \<noteq> 0 \<and> surface_ok env
     \<and> bind_api_ok env \<and> context_ok env
     \<and> s' = s\<lparr>events := events s @ [EglGetDisplay, EglInitialize, EglChooseConfig,
                  EglCreatePbufferSurface w h, EglBindAPI, EglCreateContext]\<rparr>"
  by (auto simp: InitEGL_def Let_def emit_def assert_c_def)

lemma Open_loop_unroll:
  "Open_loop w h 0 s = Open_slot w h 3 (Open_slot w h 2 (Open_slot w h 1 (Open_slot w h 0 s)))"
  by (simp add: Open_loop.simps [of w h 0] Open_loop.simps [of w h "Suc 0"]
      Open_loop.simps [of w h "Suc (Suc 0)"] Open_loop.simps [of w h "Suc (Suc (Suc 0))"]
      Open_loop.simps [of w h "Suc (Suc (Suc (Suc 0)))"] BUFFER_COUNT_def eval_nat_numeral)

lemma Open_loop_fields:
  assumes "length (picture_contexts s) = BUFFER_COUNT"
  shows "picture_contexts (Open_loop w h 0 s) = [Open_ctx s 0, Open_ctx s 1, Open_ctx s 2, Open_ctx s 3]"
    and "sys_lock (Open_loop w h 0 s) = sys_lock s" and "sys_cond (Open_loop w h 0 s) = sys_cond s"
    and "i_visible_width (Open_loop w h 0 s) = i_visible_width s"
    and "i_visible_height (Open_loop w h 0 s) = i_visible_height s"
    and "current_flip (Open_loop w h 0 s) = current_flip s"
    and "pixelbuffers (Open_loop w h 0 s) = pixelbuffers s"
    and "framebuffers (Open_loop w h 0 s) = framebuffers s"
    and "textures (Open_loop w h 0 s) = textures s"
    and "current (Open_loop w h 0 s) = current s"
    and "\<exists>es. events (Open_loop w h 0 s) = events s @ es
           \<and> (\<forall>x. GL (BindFramebuffer GL_DRAW_FRAMEBUFFER x) \<notin> set es)"
proof -
  from assms obtain a b c d where p: "picture_contexts s = [a, b, c, d]"
    by (auto simp: BUFFER_COUNT_def length_Suc_conv eval_nat_numeral)
  show "picture_contexts (Open_loop w h 0 s) = [Open_ctx s 0, Open_ctx s 1, Open_ctx s 2, Open_ctx s 3]"
    unfolding Open_loop_unroll using p
    by (simp add: Open_slot_def Let_def emit_def Open_ctx_def)
  show "sys_lock (Open_loop w h 0 s) = sys_lock s" "sys_cond (Open_loop w h 0 s) = sys_cond s"
    "i_visible_width (Open_loop w h 0 s) = i_visible_width s"
    "i_visible_height (Open_loop w h 0 s) = i_visible_height s"
    "current_flip (Open_loop w h 0 s) = current_flip s"
    "pixelbuffers (Open_loop w h 0 s) = pixelbuffers s"
    "framebuffers (Open_loop w h 0 s) = framebuffers s"
    "textures (Open_loop w h 0 s) = textures s"
    "current (Open_loop w h 0 s) = current s"
    unfolding Open_loop_unroll
    by (simp_all add: Open_slot_def Let_def emit_def)
  show "\<exists>es. events (Open_loop w h 0 s) = events s @ es
           \<and> (\<forall>x. GL (BindFramebuffer GL_DRAW_FRAMEBUFFER x) \<notin> set es)"
    unfolding Open_loop_unroll
    by (simp add: Open_slot_def Let_def emit_def)
qed

lemma Open_success:
  assumes "Open ndebug env w h sys0 = Ret (VLC_SUCCESS, Some s)"
    and "length (picture_contexts sys0) = BUFFER_COUNT"
  shows "picture_contexts s = [Open_ctx sys0 0, Open_ctx sys0 1, Open_ctx sys0 2, Open_ctx sys0 3]"
    and "sys_lock s = sys_lock sys0" and "sys_cond s = sys_cond sys0"
    and "i_visible_width s = w" and "i_visible_height s = h"
    and "current_flip s = BUFFER_COUNT - 1"
    and "pixelbuffers s = gen_pixelbuffers env"
    and "framebuffers s = gen_framebuffers env"
    and "textures s = gen_textures env"
    and "\<not> current s"
    and "\<exists>es. events s = events sys0 @ es
            @ [GL (BindFramebuffer GL_DRAW_FRAMEBUFFER (framebuffers s ! (BUFFER_COUNT - 1))),
               EglMakeCurrent False]
           \<and> (\<forall>x. GL (BindFramebuffer GL_DRAW_FRAMEBUFFER x) \<notin> set es)"
proof -
  let ?s1 = "sys0\<lparr>current := False, i_visible_width := w, i_visible_height := h\<rparr>"
  let ?s2 = "?s1\<lparr>events := events ?s1 @ [EglGetDisplay, EglInitialize, EglChooseConfig,
                  EglCreatePbufferSurface w h, EglBindAPI, EglCreateContext]\<rparr>"
  from assms(1) have m: "malloc_ok env" by (auto simp: Open_def split: if_splits)
  from assms(1) m obtain r s2 where i: "InitEGL ndebug env w h ?s1 = Ret (r, s2)"
    and rest: "(if r \<noteq> VLC_SUCCESS then Ret (VLC_EGENERIC, None)
          else
            obind (MakeCurrent ndebug (make_current_ok env) s2) (\<lambda>(made, s3).
              if \<not> api_init_ok env
              then obind (ReleaseCurrent ndebug s3) (\<lambda>s4. Ret (VLC_EGENERIC, None))
              else
                let s4 = emit (GL (GenBuffers BUFFER_COUNT)) s3;
                    s5 = emit (GL (GenFramebuffers BUFFER_COUNT))
                           (s4\<lparr>pixelbuffers := gen_pixelbuffers env\<rparr>);
                    s6 = emit (GL (GenTextures BUFFER_COUNT))
                           (s5\<lparr>framebuffers := gen_framebuffers env\<rparr>);
                    s7 = Open_loop w h 0 (s6\<lparr>textures := gen_textures env\<rparr>);
                    s8 = BindDrawFramebuffer (s7\<lparr>current_flip := BUFFER_COUNT - 1\<rparr>)
                in obind (ReleaseCurrent ndebug s8) (\<lambda>s9. Ret (VLC_SUCCESS, Some s9))))
        = Ret (VLC_SUCCESS, Some s)"
    unfolding Open_def Let_def by (auto simp: obind_eq_Ret)
  from rest have r: "r = VLC_SUCCESS" by (auto split: if_splits)
  with i have s2: "s2 = ?s2" by (simp add: InitEGL_success)
  let ?s3 = "(emit (EglMakeCurrent True) ?s2)\<lparr>current := make_current_ok env\<rparr>"
  from rest r obtain made s3 where mk: "MakeCurrent ndebug (make_current_ok env) s2 = Ret (made, s3)"
    and rest2: "(if \<not> api_init_ok env
              then obind (ReleaseCurrent ndebug s3) (\<lambda>s4. Ret (VLC_EGENERIC, None))
              else
                let s4 = emit (GL (GenBuffers BUFFER_COUNT)) s3;
                    s5 = emit (GL (GenFramebuffers BUFFER_COUNT))
                           (s4\<lparr>pixelbuffers := gen_pixelbuffers env\<rparr>);
                    s6 = emit (GL (GenTextures BUFFER_COUNT))
                           (s5\<lparr>framebuffers := gen_framebuffers env\<rparr>);
                    s7 = Open_loop w h 0 (s6\<lparr>textures := gen_textures env\<rparr>);
                    s8 = BindDrawFramebuffer (s7\<lparr>current_flip := BUFFER_COUNT - 1\<rparr>)
                in obind (ReleaseCurrent ndebug s8) (\<lambda>s9. Ret (VLC_SUCCESS, Some s9)))
        = Ret (VLC_SUCCESS, Some s)"
    by (auto simp: obind_eq_Ret)
  from mk s2 have s3: "s3 = ?s3"
    by (auto simp: MakeCurrent_def assert_c_def Let_def emit_def split: if_splits)
  let ?s6 = "(emit (GL (GenTextures BUFFER_COUNT))
                ((emit (GL (GenFramebuffers BUFFER_COUNT))
                   ((emit (GL (GenBuffers BUFFER_COUNT)) ?s3)\<lparr>pixelbuffers := gen_pixelbuffers env\<rparr>))
                  \<lparr>framebuffers := gen_framebuffers env\<rparr>))\<lparr>textures := gen_textures env\<rparr>"
  let ?s7 = "Open_loop w h 0 ?s6"
  let ?s8 = "BindDrawFramebuffer (?s7\<lparr>current_flip := BUFFER_COUNT - 1\<rparr>)"
  from rest2 have api: "api_init_ok env"
    by (auto simp: obind_eq_Ret split: if_splits)
  with rest2 s3 have rel: "ReleaseCurrent ndebug ?s8 = Ret s"
    by (simp add: Let_def obind_eq_Ret)
  then have s: "s = (emit (EglMakeCurrent False) ?s8)\<lparr>current := False\<rparr>"
    by (auto simp: ReleaseCurrent_def assert_c_def split: if_splits)
  have len6: "length (picture_contexts ?s6) = BUFFER_COUNT"
    using assms(2) by (simp add: emit_def)
  note f = Open_loop_fields [OF len6, of w h]
  have c6: "\<And>j. Open_ctx ?s6 j = Open_ctx sys0 j"
    by (simp add: Open_ctx_def emit_def)
  show "picture_contexts s = [Open_ctx sys0 0, Open_ctx sys0 1, Open_ctx sys0 2, Open_ctx sys0 3]"
    unfolding s using f(1) c6 by (simp add: emit_def BindDrawFramebuffer_def)
  show "sys_lock s = sys_lock sys0" "sys_cond s = sys_cond sys0"
    "i_visible_width s = w" "i_visible_height s = h"
    "current_flip s = BUFFER_COUNT - 1"
    "pixelbuffers s = gen_pixelbuffers env"
    "framebuffers s = gen_framebuffers env"
    "textures s = gen_textures env"
    "\<not> current s"
    unfolding s using f(2-10) by (simp_all add: emit_def BindDrawFramebuffer_def)
  from f(11) obtain es where es: "events ?s7 = events ?s6 @ es"
    and nes: "\<forall>x. GL (BindFramebuffer GL_DRAW_FRAMEBUFFER x) \<notin> set es" by blast
  let ?pre = "[EglGetDisplay, EglInitialize, EglChooseConfig,
                  EglCreatePbufferSurface w h, EglBindAPI, EglCreateContext, EglMakeCurrent True,
                  GL (GenBuffers BUFFER_COUNT), GL (GenFramebuffers BUFFER_COUNT),
                  GL (GenTextures BUFFER_COUNT)] @ es"
  have "events s = events sys0 @ ?pre
            @ [GL (BindFramebuffer GL_DRAW_FRAMEBUFFER (framebuffers s ! (BUFFER_COUNT - 1))),
               EglMakeCurrent False]"
    unfolding s using es f(8) by (simp add: emit_def BindDrawFramebuffer_def)
  moreover have "\<forall>x. GL (BindFramebuffer GL_DRAW_FRAMEBUFFER x) \<notin> set ?pre"
    using nes by simp
  ultimately show "\<exists>es. events s = events sys0 @ es
            @ [GL (BindFramebuffer GL_DRAW_FRAMEBUFFER (framebuffers s ! (BUFFER_COUNT - 1))),
               EglMakeCurrent False]
           \<and> (\<forall>x. GL (BindFramebuffer GL_DRAW_FRAMEBUFFER x) \<notin> set es)"
    by blast
qed

lemma Open_block0: "\<exists>s. Open False env0 64 64 block0 = Ret (VLC_SUCCESS, Some s)"
  by (simp add: Open_def env0_def block0_def InitEGL_def MakeCurrent_def ReleaseCurrent_def
      assert_c_def Let_def emit_def Open_loop_unroll Open_slot_def BindDrawFramebuffer_def)

lemma Open_opened0: "Open False env0 64 64 block0 = Ret (VLC_SUCCESS, Some opened0)"
proof -
  from Open_block0 obtain s where s: "Open False env0 64 64 block0 = Ret (VLC_SUCCESS, Some s)" ..
  then have "opened0 = s" by (simp add: opened0_def)
  with s show ?thesis by simp
qed

lemma block0_len: "length (picture_contexts block0) = BUFFER_COUNT"
  by (simp add: block0_def BUFFER_COUNT_def)

lemma lt_BUFFER_COUNT: "j < BUFFER_COUNT \<longleftrightarrow> j = 0 \<or> j = 1 \<or> j = 2 \<or> j = 3"
  by (auto simp: BUFFER_COUNT_def)

lemma Swap_returned_simps [simp]:
  "sys_lock (Swap_returned a cur i s) = sys_lock s"
  "sys_cond (Swap_returned a cur i s) = sys_cond s"
  "i_visible_width (Swap_returned a cur i s) = i_visible_width s"
  "i_visible_height (Swap_returned a cur i s) = i_visible_height s"
  "current_flip (Swap_returned a cur i s) = i"
  "pixelbuffers (Swap_returned a cur i s) = pixelbuffers s"
  "framebuffers (Swap_returned a cur i s) = framebuffers s"
  "textures (Swap_returned a cur i s) = textures s"
  "current (Swap_returned a cur i s) = current s"
  "length (picture_contexts (Swap_returned a cur i s)) = length (picture_contexts s)"
  by (simp_all add: Swap_returned_def)

lemma Swap_returned_rc:
  "rc (picture_contexts (Swap_returned True cur i s) ! j) = rc (picture_contexts s ! j)"
  by (cases "j = cur"; cases "cur < length (picture_contexts s)")
    (simp_all add: Swap_returned_def not_less list_update_beyond)

lemma dims_ok_cong:
  "i_visible_width s' = i_visible_width s \<Longrightarrow> i_visible_height s' = i_visible_height s \<Longrightarrow>
     dims_ok s' = dims_ok s"
  by (simp add: dims_ok_def)

lemma Swap_issued_rc:
  assumes "current_flip s < length (picture_contexts s)"
  shows "rc (picture_contexts (Swap_issued p s) ! j) =
     (if j = current_flip s then rc (picture_contexts s ! j) + 1 else rc (picture_contexts s ! j))"
  using assms by (simp add: Swap_issued_ctx)

lemma Swap_step:
  assumes len: "length (picture_contexts s) = BUFFER_COUNT"
    and c: "current_flip s < BUFFER_COUNT" and d: "dims_ok s"
    and r: "rc (picture_contexts s ! current_flip s) = 0"
    and i: "i < BUFFER_COUNT" and ne: "i \<noteq> current_flip s"
    and ri: "rc (picture_contexts s ! i) = 0"
    and low: "\<forall>j<i. j \<noteq> current_flip s \<longrightarrow> passes ndebug (picture_contexts s ! j)"
  shows "Swap ndebug p True ws s =
      Ret (Some \<lparr>p_pixels = p, i_lines = to_GLsizei (i_visible_height s),
                 i_pitch = to_GLsizei (i_visible_width s) * 4, context_p = Some (current_flip s)\<rparr>,
           Swap_returned True (current_flip s) i (Swap_issued p s))"
    and "\<forall>j. rc (picture_contexts (Swap_returned True (current_flip s) i (Swap_issued p s)) ! j) =
            (if j = current_flip s then 1 else rc (picture_contexts s ! j))"
proof -
  have cl: "current_flip s < length (picture_contexts s)" using c len by simp
  have r': "rc (picture_contexts s ! current_flip s) \<noteq> INT_MAX" using r by (simp add: INT_MAX_def)
  have ri': "rc (picture_contexts (Swap_issued p s) ! i) = 0"
    using ri ne by (simp add: Swap_issued_rc [OF cl])
  have low': "\<forall>j<i. passes ndebug (picture_contexts (Swap_issued p s) ! j)"
  proof (intro allI impI)
    fix j assume j: "j < i"
    show "passes ndebug (picture_contexts (Swap_issued p s) ! j)"
    proof (cases "j = current_flip s")
      case True
      then show ?thesis using r Swap_issued_rc [OF cl, where p = p and j = j] by (simp add: passes_def)
    next
      case False
      then show ?thesis using low j by (simp add: Swap_issued_ctx)
    qed
  qed
  from Swap_found [OF c len d r' i ri' low', where alloc_ok = True and ws = ws]
  show "Swap ndebug p True ws s =
      Ret (Some \<lparr>p_pixels = p, i_lines = to_GLsizei (i_visible_height s),
                 i_pitch = to_GLsizei (i_visible_width s) * 4, context_p = Some (current_flip s)\<rparr>,
           Swap_returned True (current_flip s) i (Swap_issued p s))"
    by simp
  show "\<forall>j. rc (picture_contexts (Swap_returned True (current_flip s) i (Swap_issued p s)) ! j) =
            (if j = current_flip s then 1 else rc (picture_contexts s ! j))"
    using r by (simp add: Swap_returned_rc Swap_issued_rc [OF cl])
qed

lemma UpdateBuffer_loop_spurious:
  "UpdateBuffer_scan ndebug (picture_contexts s) 0 = Ret BUFFER_COUNT \<Longrightarrow> \<forall>w\<in>set ws. w = [] \<Longrightarrow>
     \<exists>s'. UpdateBuffer_loop ndebug ws s = Blocked s'
        \<and> picture_contexts s' = picture_contexts s
        \<and> sys_cond s' = sys_cond s \<and> sys_lock s' = sys_lock s
        \<and> last (events s') = CondWait (sys_cond s) (sys_lock s)"
proof (induction ws arbitrary: s)
  case Nil
  then show ?case by (simp add: emit_def)
next
  case (Cons w ws)
  let ?s1 = "emit (CondWoken (sys_cond s) (sys_lock s)) (emit (CondWait (sys_cond s) (sys_lock s)) s)"
  from Cons.prems(2) have w: "w = []" and ws: "\<forall>w\<in>set ws. w = []" by simp_all
  have sc: "UpdateBuffer_scan ndebug (picture_contexts ?s1) 0 = Ret BUFFER_COUNT"
    using Cons.prems(1) by (simp add: emit_def)
  from Cons.IH [OF sc ws] obtain s' where "UpdateBuffer_loop ndebug ws ?s1 = Blocked s'"
    and "picture_contexts s' = picture_contexts ?s1"
    and "sys_cond s' = sys_cond ?s1 \<and> sys_lock s' = sys_lock ?s1"
    and "last (events s') = CondWait (sys_cond ?s1) (sys_lock ?s1)"
    by blast
  then show ?case
    using Cons.prems(1) w by (simp add: emit_def)
qed

lemma Swap_blocks:
  assumes len: "length (picture_contexts s) = BUFFER_COUNT"
    and c: "current_flip s < BUFFER_COUNT" and d: "dims_ok s"
    and r: "rc (picture_contexts s ! current_flip s) \<noteq> INT_MAX"
    and none: "\<forall>j<BUFFER_COUNT. passes ndebug (picture_contexts (Swap_issued p s) ! j)"
    and sp: "\<forall>w\<in>set ws. w = []"
  shows "\<exists>sb. Swap ndebug p alloc_ok ws s = Blocked sb
      \<and> picture_contexts sb = picture_contexts (Swap_issued p s)
      \<and> last (events sb) = CondWait (sys_cond s) (sys_lock s)"
proof -
  have sc: "UpdateBuffer_scan ndebug (picture_contexts (Swap_issued p s)) 0 = Ret BUFFER_COUNT"
    using none by (intro scan_none) (auto simp: passes_def)
  from UpdateBuffer_loop_spurious [OF sc sp] obtain sb where
    b: "UpdateBuffer_loop ndebug ws (Swap_issued p s) = Blocked sb"
    and "picture_contexts sb = picture_contexts (Swap_issued p s)"
    and "last (events sb) = CondWait (sys_cond (Swap_issued p s)) (sys_lock (Swap_issued p s))"
    by blast
  then show ?thesis
    unfolding Swap_eq [OF c len d r] by simp
qed

lemma Swap_released:
  assumes len: "length (picture_contexts s) = BUFFER_COUNT"
    and c: "current_flip s < BUFFER_COUNT" and d: "dims_ok s"
    and r: "rc (picture_contexts s ! current_flip s) \<noteq> INT_MAX"
    and none: "\<forall>j<BUFFER_COUNT. passes ndebug (picture_contexts (Swap_issued p s) ! j)"
    and k: "k < BUFFER_COUNT" and rk: "rc (picture_contexts (Swap_issued p s) ! k) = 1"
  shows "\<exists>s'. Swap ndebug p True ([Destroy k] # ws) s =
      Ret (Some \<lparr>p_pixels = p, i_lines = to_GLsizei (i_visible_height s),
                 i_pitch = to_GLsizei (i_visible_width s) * 4, context_p = Some (current_flip s)\<rparr>, s')
      \<and> current_flip s' = k"
proof -
  let ?I = "Swap_issued p s"
  let ?W = "emit (CondWait (sys_cond ?I) (sys_lock ?I)) ?I"
  have sc: "UpdateBuffer_scan ndebug (picture_contexts ?I) 0 = Ret BUFFER_COUNT"
    using none by (intro scan_none) (auto simp: passes_def)
  have lenW: "length (picture_contexts ?W) = BUFFER_COUNT" using len by (simp add: emit_def)
  have rkW: "rc (picture_contexts ?W ! k) \<noteq> INT_MIN" using rk by (simp add: emit_def INT_MIN_def)
  obtain sd where de: "picture_context_destroy k ?W = Ret sd"
    and sd: "sd = ?W\<lparr>picture_contexts :=
                (picture_contexts ?W)[k := (picture_contexts ?W ! k)\<lparr>rc := rc (picture_contexts ?W ! k) - 1\<rparr>],
              events := events ?W @ [MutexLock (lock (picture_contexts ?W ! k)), RcDecr k,
                                      CondSignal (cond (picture_contexts ?W ! k)),
                                      MutexUnlock (lock (picture_contexts ?W ! k))]\<rparr>"
    using k rkW by (simp add: picture_context_destroy_Ret)
  let ?A = "emit (CondWoken (sys_cond ?I) (sys_lock ?I)) sd"
  have rcA: "\<And>j. j < BUFFER_COUNT \<Longrightarrow>
      rc (picture_contexts ?A ! j) = (if j = k then 0 else rc (picture_contexts ?I ! j))"
    using rk lenW k unfolding sd by (simp add: emit_def nth_list_update)
  have "UpdateBuffer_scan ndebug (picture_contexts ?A) 0 = Ret k"
  proof (rule scan_lowest)
    show "0 \<le> k" by simp
    show "k < BUFFER_COUNT" by fact
    show "rc (picture_contexts ?A ! k) = 0" using rcA [OF k] by simp
    show "\<forall>j. 0 \<le> j \<and> j < k \<longrightarrow> rc (picture_contexts ?A ! j) \<noteq> 0
        \<and> (ndebug \<or> 0 \<le> rc (picture_contexts ?A ! j))"
    proof (intro allI impI)
      fix j assume j: "0 \<le> j \<and> j < k"
      then have jb: "j < BUFFER_COUNT" using k by simp
      from j rcA [OF jb] have "rc (picture_contexts ?A ! j) = rc (picture_contexts ?I ! j)" by simp
      with none jb show "rc (picture_contexts ?A ! j) \<noteq> 0
        \<and> (ndebug \<or> 0 \<le> rc (picture_contexts ?A ! j))"
        by (simp add: passes_def)
    qed
  qed
  then have "UpdateBuffer_loop ndebug ws ?A = Ret (k, ?A)"
    using k by (rule UpdateBuffer_loop_found)
  then have l: "UpdateBuffer_loop ndebug ([Destroy k] # ws) ?I = Ret (k, ?A)"
    using sc de by simp
  show ?thesis
    unfolding Swap_eq [OF c len d r] l by simp
qed

lemma dims_ok_Swap [simp]:
  "dims_ok (Swap_returned a cur i s) = dims_ok s" "dims_ok (Swap_issued p s) = dims_ok s"
  by (simp_all add: dims_ok_def)

lemma fresh_pool_cycles:
  assumes len: "length (picture_contexts s0) = BUFFER_COUNT"
    and cf: "current_flip s0 = BUFFER_COUNT - 1"
    and z: "\<forall>j<BUFFER_COUNT. rc (picture_contexts s0 ! j) = 0"
    and d: "dims_ok s0"
  shows "\<exists>s1 s2 s3.
      Swap ndebug p1 True ws1 s0 = Ret (Some (frame s0 p1 3), s1) \<and> current_flip s1 = 0
    \<and> Swap ndebug p2 True ws2 s1 = Ret (Some (frame s0 p2 0), s2) \<and> current_flip s2 = 1
    \<and> Swap ndebug p3 True ws3 s2 = Ret (Some (frame s0 p3 1), s3) \<and> current_flip s3 = 2
    \<and> length (picture_contexts s3) = BUFFER_COUNT \<and> dims_ok s3
    \<and> sys_lock s3 = sys_lock s0 \<and> sys_cond s3 = sys_cond s0
    \<and> i_visible_width s3 = i_visible_width s0 \<and> i_visible_height s3 = i_visible_height s0
    \<and> (\<forall>j<BUFFER_COUNT. rc (picture_contexts s3 ! j) = (if j = 2 then 0 else 1))"
proof -
  let ?s1 = "Swap_returned True 3 0 (Swap_issued p1 s0)"
  let ?s2 = "Swap_returned True 0 1 (Swap_issued p2 ?s1)"
  let ?s3 = "Swap_returned True 1 2 (Swap_issued p3 ?s2)"
  have n: "(0::nat) < BUFFER_COUNT" "(1::nat) < BUFFER_COUNT" "(2::nat) < BUFFER_COUNT"
    "(3::nat) < BUFFER_COUNT" by (simp_all add: BUFFER_COUNT_def)
  have cf0: "current_flip s0 = 3" using cf by (simp add: BUFFER_COUNT_def)
  have c0: "current_flip s0 < BUFFER_COUNT" using cf0 n by simp
  have r0: "rc (picture_contexts s0 ! current_flip s0) = 0" using z c0 by simp
  have ri0: "rc (picture_contexts s0 ! 0) = 0" using z n by simp
  have ne0: "0 \<noteq> current_flip s0" using cf0 by simp
  have low0: "\<forall>j<0. j \<noteq> current_flip s0 \<longrightarrow> passes ndebug (picture_contexts s0 ! j)" by simp
  note st1 = Swap_step(1) [OF len c0 d r0 n(1) ne0 ri0 low0, where p = p1 and ws = ws1]
    Swap_step(2) [OF len c0 d r0 n(1) ne0 ri0 low0, where p = p1]
  have sw1: "Swap ndebug p1 True ws1 s0 = Ret (Some (frame s0 p1 3), ?s1)"
    using st1(1) cf0 by (simp add: frame_def)
  have rc1: "\<And>j. j < BUFFER_COUNT \<Longrightarrow> rc (picture_contexts ?s1 ! j) = (if j = 3 then 1 else 0)"
    using st1(2) cf0 z by simp
  have len1: "length (picture_contexts ?s1) = BUFFER_COUNT" using len by simp
  have d1: "dims_ok ?s1" using d by simp
  have c1: "current_flip ?s1 < BUFFER_COUNT" using n by simp
  have r1: "rc (picture_contexts ?s1 ! current_flip ?s1) = 0" using rc1 [OF n(1)] by simp
  have ri1: "rc (picture_contexts ?s1 ! 1) = 0" using rc1 [OF n(2)] by simp
  have ne1: "1 \<noteq> current_flip ?s1" by simp
  have low1: "\<forall>j<1. j \<noteq> current_flip ?s1 \<longrightarrow> passes ndebug (picture_contexts ?s1 ! j)" by simp
  note st2 = Swap_step(1) [OF len1 c1 d1 r1 n(2) ne1 ri1 low1, where p = p2 and ws = ws2]
    Swap_step(2) [OF len1 c1 d1 r1 n(2) ne1 ri1 low1, where p = p2]
  have sw2: "Swap ndebug p2 True ws2 ?s1 = Ret (Some (frame s0 p2 0), ?s2)"
    using st2(1) by (simp add: frame_def)
  have rc2: "\<And>j. j < BUFFER_COUNT \<Longrightarrow>
      rc (picture_contexts ?s2 ! j) = (if j = 0 then 1 else if j = 3 then 1 else 0)"
  proof -
    fix j assume j: "j < BUFFER_COUNT"
    have "rc (picture_contexts ?s2 ! j) = (if j = current_flip ?s1 then 1 else rc (picture_contexts ?s1 ! j))"
      using st2(2) by simp
    then show "rc (picture_contexts ?s2 ! j) = (if j = 0 then 1 else if j = 3 then 1 else 0)"
      using rc1 [OF j] by simp
  qed
  have len2: "length (picture_contexts ?s2) = BUFFER_COUNT" using len by simp
  have d2: "dims_ok ?s2" using d by simp
  have c2: "current_flip ?s2 < BUFFER_COUNT" using n by simp
  have r2: "rc (picture_contexts ?s2 ! current_flip ?s2) = 0" using rc2 [OF n(2)] by simp
  have ri2: "rc (picture_contexts ?s2 ! 2) = 0" using rc2 [OF n(3)] by simp
  have ne2: "2 \<noteq> current_flip ?s2" by simp
  have low2: "\<forall>j<2. j \<noteq> current_flip ?s2 \<longrightarrow> passes ndebug (picture_contexts ?s2 ! j)"
  proof (intro allI impI)
    fix j :: nat assume "j < 2" and "j \<noteq> current_flip ?s2"
    then have "j = 0" by simp
    then show "passes ndebug (picture_contexts ?s2 ! j)"
      using rc2 [OF n(1)] by (simp add: passes_def)
  qed
  note st3 = Swap_step(1) [OF len2 c2 d2 r2 n(3) ne2 ri2 low2, where p = p3 and ws = ws3]
    Swap_step(2) [OF len2 c2 d2 r2 n(3) ne2 ri2 low2, where p = p3]
  have sw3: "Swap ndebug p3 True ws3 ?s2 = Ret (Some (frame s0 p3 1), ?s3)"
    using st3(1) by (simp add: frame_def)
  have rc3: "\<forall>j<BUFFER_COUNT. rc (picture_contexts ?s3 ! j) = (if j = 2 then 0 else 1)"
  proof (intro allI impI)
    fix j assume j: "j < BUFFER_COUNT"
    have "rc (picture_contexts ?s3 ! j) = (if j = current_flip ?s2 then 1 else rc (picture_contexts ?s2 ! j))"
      using st3(2) by simp
    then show "rc (picture_contexts ?s3 ! j) = (if j = 2 then 0 else 1)"
      using rc2 [OF j] j by (auto simp: lt_BUFFER_COUNT)
  qed
  have len3: "length (picture_contexts ?s3) = BUFFER_COUNT" using len by simp
  have d3: "dims_ok ?s3" using d by simp
  have f3: "current_flip ?s1 = 0" "current_flip ?s2 = 1" "current_flip ?s3 = 2"
    "sys_lock ?s3 = sys_lock s0" "sys_cond ?s3 = sys_cond s0"
    "i_visible_width ?s3 = i_visible_width s0" "i_visible_height ?s3 = i_visible_height s0"
    by simp_all
  show ?thesis
    apply (rule exI [of _ ?s1], rule exI [of _ ?s2], rule exI [of _ ?s3])
    using sw1 sw2 sw3 rc3 len3 d3 f3 by blast
qed

lemma pool0_fresh:
  "current_flip pool0 = BUFFER_COUNT - 1" "\<forall>j<BUFFER_COUNT. rc (picture_contexts pool0 ! j) = 0"
proof -
  show "current_flip pool0 = BUFFER_COUNT - 1" by (simp add: BUFFER_COUNT_def)
  show "\<forall>j<BUFFER_COUNT. rc (picture_contexts pool0 ! j) = 0" by (auto simp: lt_BUFFER_COUNT)
qed






lemma counts_ok_iff:
  "counts_ok sys \<longleftrightarrow> (\<forall>j<BUFFER_COUNT. 0 \<le> rc (picture_contexts sys ! j))"
  by (auto simp: counts_ok_def)

lemma scan_assert:
  "k \<le> i \<Longrightarrow> i < BUFFER_COUNT \<Longrightarrow> rc (pcs ! i) < 0 \<Longrightarrow>
   (\<forall>j. k \<le> j \<and> j < i \<longrightarrow> 0 < rc (pcs ! j)) \<Longrightarrow>
   UpdateBuffer_scan False pcs k = AssertFailed"
proof (induction "False" pcs k rule: UpdateBuffer_scan.induct)
  case (1 pcs index)
  show ?case
  proof (cases "index = i")
    case True
    with "1.prems" show ?thesis
      by (subst UpdateBuffer_scan.simps) simp
  next
    case False
    with "1.prems" have lt: "index < i" and pos: "0 < rc (pcs ! index)" by auto
    from lt "1.prems" have b: "index < BUFFER_COUNT" by simp
    have "UpdateBuffer_scan False pcs (Suc index) = AssertFailed"
      using "1.hyps" [OF b] pos lt "1.prems" by auto
    with b pos show ?thesis
      by (subst UpdateBuffer_scan.simps) auto
  qed
qed

lemma consumer_step_counts_ok:
  assumes "consumer_step x s = Ret s'" and "length (picture_contexts s) = BUFFER_COUNT"
    and "counts_ok s" and "holds_references [x] s"
  shows "counts_ok s'"
proof (cases x)
  case (Copy i)
  with assms(1) have i: "i < BUFFER_COUNT" and s': "s' = s\<lparr>picture_contexts :=
                (picture_contexts s)[i := (picture_contexts s ! i)\<lparr>rc := rc (picture_contexts s ! i) + 1\<rparr>],
              events := events s @ [MutexLock (lock (picture_contexts s ! i)), RcIncr i,
                                      MutexUnlock (lock (picture_contexts s ! i))]\<rparr>"
    by (simp_all add: picture_context_copy_Ret)
  show ?thesis
    unfolding counts_ok_iff
  proof (intro allI impI)
    fix j assume j: "j < BUFFER_COUNT"
    with assms(3) have "0 \<le> rc (picture_contexts s ! j)" by (simp add: counts_ok_iff)
    then show "0 \<le> rc (picture_contexts s' ! j)"
      unfolding s' using assms(2) j by (cases "j = i") simp_all
  qed
next
  case (Destroy i)
  with assms(1) have i: "i < BUFFER_COUNT" and s': "s' = s\<lparr>picture_contexts :=
                (picture_contexts s)[i := (picture_contexts s ! i)\<lparr>rc := rc (picture_contexts s ! i) - 1\<rparr>],
              events := events s @ [MutexLock (lock (picture_contexts s ! i)), RcDecr i,
                                      CondSignal (cond (picture_contexts s ! i)),
                                      MutexUnlock (lock (picture_contexts s ! i))]\<rparr>"
    by (simp_all add: picture_context_destroy_Ret)
  from assms(4) Destroy have pos: "0 < rc (picture_contexts s ! i)" by simp
  show ?thesis
    unfolding counts_ok_iff
  proof (intro allI impI)
    fix j assume j: "j < BUFFER_COUNT"
    with assms(3) have "0 \<le> rc (picture_contexts s ! j)" by (simp add: counts_ok_iff)
    then show "0 \<le> rc (picture_contexts s' ! j)"
      unfolding s' using assms(2) j pos by (cases "j = i") simp_all
  qed
qed

lemma consumers_counts_ok:
  "consumers xs s = Ret s' \<Longrightarrow> length (picture_contexts s) = BUFFER_COUNT \<Longrightarrow>
     counts_ok s \<Longrightarrow> holds_references xs s \<Longrightarrow> counts_ok s' \<and> length (picture_contexts s') = BUFFER_COUNT"
proof (induction xs arbitrary: s)
  case Nil
  then show ?case by simp
next
  case (Cons x xs)
  from Cons.prems(1) obtain s1 where 1: "consumer_step x s = Ret s1" and 2: "consumers xs s1 = Ret s'"
    by (auto simp: obind_eq_Ret)
  from Cons.prems(4) 1 have r1: "holds_references [x] s" and r2: "holds_references xs s1" by simp_all
  have c1: "counts_ok s1" using consumer_step_counts_ok [OF 1 Cons.prems(2,3) r1] .
  have l1: "length (picture_contexts s1) = BUFFER_COUNT"
    using rc_only_length [OF consumer_step_rc_only [OF 1 Cons.prems(2)]] Cons.prems(2) by simp
  show ?case using Cons.IH [OF 2 l1 c1 r2] .
qed

lemma held0_run:
  "consumers [Copy 0, Destroy 0, Destroy 0] held0 =
     Ret (pool0\<lparr>events := [MutexLock 64, RcIncr 0, MutexUnlock 64,
                            MutexLock 64, RcDecr 0, CondSignal 128, MutexUnlock 64,
                            MutexLock 64, RcDecr 0, CondSignal 128, MutexUnlock 64]\<rparr>)"
  by (simp add: held0_def pool_rcs_def pool0_def ctx0_def picture_context_copy_def
      picture_context_destroy_def rc_incr_def rc_decr_def set_rc_def emit_def Let_def
      BUFFER_COUNT_def INT_MAX_def INT_MIN_def)

lemma destroy_at_zero_run:
  "picture_context_destroy 0 pool0 =
     Ret (pool0\<lparr>picture_contexts := [ctx0\<lparr>rc := - 1\<rparr>, ctx0, ctx0, ctx0],
               events := [MutexLock 64, RcDecr 0, CondSignal 128, MutexUnlock 64]\<rparr>)
   \<and> UpdateBuffer_scan False [ctx0\<lparr>rc := - 1\<rparr>, ctx0, ctx0, ctx0] 0 = AssertFailed
   \<and> UpdateBuffer_scan True [ctx0\<lparr>rc := - 1\<rparr>, ctx0, ctx0, ctx0] 0 = Ret 1"
  by (simp add: picture_context_destroy_def rc_decr_def set_rc_def emit_def Let_def
      BUFFER_COUNT_def INT_MIN_def UpdateBuffer_scan.simps [of _ _ 0]
      UpdateBuffer_scan.simps [of _ _ 1] UpdateBuffer_scan.simps [of _ _ "Suc 0"] assert_c_def pool0_def)

subsection \<open>The current context\<close>

text \<open>
  C8. \<open>MakeCurrent\<close> and \<open>ReleaseCurrent\<close> are paired and not reentrant. In a build that
  checks assertions, \<open>MakeCurrent\<close> on a context that is current fails its assertion
  whatever EGL would answer, and \<open>ReleaseCurrent\<close> on a context that is not current fails
  its assertion; neither returns an error code. From a context that is not current, a
  successful \<open>MakeCurrent\<close> makes it current, a second \<open>MakeCurrent\<close> then fails the
  assertion, \<open>ReleaseCurrent\<close> makes it not current again, a second \<open>ReleaseCurrent\<close>
  fails the assertion, and \<open>MakeCurrent\<close> succeeds anew. The recoverable error is
  another one: EGL refusing to bind, which returns \<open>VLC_EGENERIC\<close> and leaves the context
  not current.
\<close>

theorem MakeCurrent_ReleaseCurrent_paired:
  "(current sys \<longrightarrow> MakeCurrent False egl_ok sys = AssertFailed)
   \<and> (\<not> current sys \<longrightarrow> ReleaseCurrent False sys = AssertFailed)
   \<and> (\<not> current sys \<longrightarrow>
        (\<exists>s1. MakeCurrent False True sys = Ret (VLC_SUCCESS, s1) \<and> current s1
           \<and> MakeCurrent False egl_ok s1 = AssertFailed
           \<and> (\<exists>s2. ReleaseCurrent False s1 = Ret s2 \<and> \<not> current s2
                 \<and> ReleaseCurrent False s2 = AssertFailed
                 \<and> (\<exists>s3. MakeCurrent False True s2 = Ret (VLC_SUCCESS, s3) \<and> current s3))))
   \<and> (\<not> current sys \<longrightarrow>
        (\<exists>s1. MakeCurrent False False sys = Ret (VLC_EGENERIC, s1) \<and> \<not> current s1))"
  by (simp add: MakeCurrent_def ReleaseCurrent_def assert_c_def emit_def Let_def)

theorem MakeCurrent_ReleaseCurrent_paired_witness:
  "\<not> current pool0 \<and> ReleaseCurrent False pool0 = AssertFailed
   \<and> current (pool0\<lparr>current := True\<rparr>)
   \<and> MakeCurrent False True (pool0\<lparr>current := True\<rparr>) = AssertFailed"
proof -
  have h1: "\<not> current pool0" by (simp add: pool0_def)
  have h2: "current (pool0\<lparr>current := True\<rparr>)" by simp
  have a: "ReleaseCurrent False pool0 = AssertFailed"
    using MakeCurrent_ReleaseCurrent_paired [of pool0 True] h1 by blast
  have b: "MakeCurrent False True (pool0\<lparr>current := True\<rparr>) = AssertFailed"
    using MakeCurrent_ReleaseCurrent_paired [of "pool0\<lparr>current := True\<rparr>" True] h2 by blast
  show ?thesis using h1 h2 a b by simp
qed

subsection \<open>The choice of the next slot\<close>




subsection \<open>The picture handed out\<close>

text \<open>
  C6. A picture that \<open>Swap\<close> returns is built from the pointer that \<open>MapBufferRange\<close>
  returned, has \<open>i_lines\<close> equal to the height of the output and \<open>i_pitch\<close> equal to four
  times its width (the width and height as \<open>GLsizei\<close>, which for values below \<open>2^31\<close> are
  the unsigned values of \<open>fmt_out\<close>), and carries the context of the slot that was
  current when \<open>Swap\<close> was called: the slot whose pixel buffer was bound and mapped in
  this call, and whose \<open>buffer_mapping\<close> is that pointer afterwards.
\<close>

theorem Swap_output_frame:
  assumes "length (picture_contexts sys) = BUFFER_COUNT"
    and "Swap ndebug pixels alloc_ok wakeups sys = Ret (Some pic, sys')"
  shows "p_pixels pic = pixels
     \<and> i_lines pic = to_GLsizei (i_visible_height sys)
     \<and> i_pitch pic = to_GLsizei (i_visible_width sys) * 4
     \<and> (uint (i_visible_width sys) < 2 ^ 31 \<longrightarrow> i_pitch pic = uint (i_visible_width sys) * 4)
     \<and> (uint (i_visible_height sys) < 2 ^ 31 \<longrightarrow> i_lines pic = uint (i_visible_height sys))
     \<and> context_p pic = Some (current_flip sys)
     \<and> buffer_mapping (picture_contexts sys' ! current_flip sys) = pixels
     \<and> GL (BindBuffer (pixelbuffers sys ! current_flip sys)) \<in> set (new_events sys sys')
     \<and> GL (MapBufferRange (to_GLsizei (i_visible_width sys) * to_GLsizei (i_visible_height sys) * 4))
           \<in> set (new_events sys sys')"
proof -
  let ?cur = "current_flip sys"
  from Swap_Ret_facts [OF assms(2) assms(1)] obtain i s8 where c: "?cur < BUFFER_COUNT"
    and r: "rc_only (touched wakeups) (Swap_issued pixels sys) s8"
    and o: "Some pic = (if alloc_ok then Some \<lparr>p_pixels = pixels, i_lines = to_GLsizei (i_visible_height sys),
                    i_pitch = to_GLsizei (i_visible_width sys) * 4, context_p = Some ?cur\<rparr>
               else None)"
    and s: "sys' = s8\<lparr>current_flip := i,
            picture_contexts := (picture_contexts s8)[?cur :=
               (if alloc_ok then (picture_contexts s8 ! ?cur)\<lparr>vctx := NULL\<rparr>
                else (picture_contexts s8 ! ?cur)\<lparr>rc := rc (picture_contexts s8 ! ?cur) - 1\<rparr>)],
            events := events s8 @ [MutexUnlock (sys_lock sys),
                GL (BindFramebuffer GL_DRAW_FRAMEBUFFER (framebuffers sys ! i))]
              @ (if current sys then [] else [EglMakeCurrent False])
              @ (if alloc_ok then [] else [RcDecr ?cur])\<rparr>"
    by metis
  from o have ok: alloc_ok and pic: "pic = \<lparr>p_pixels = pixels, i_lines = to_GLsizei (i_visible_height sys),
                    i_pitch = to_GLsizei (i_visible_width sys) * 4, context_p = Some ?cur\<rparr>"
    by (simp_all split: if_splits)
  have len8: "length (picture_contexts s8) = BUFFER_COUNT"
    using rc_only_fields(10) [OF r] assms(1) by simp
  have ci: "?cur < length (picture_contexts (Swap_issued pixels sys))" using c assms(1) by simp
  have "buffer_mapping (picture_contexts s8 ! ?cur)
      = buffer_mapping (picture_contexts (Swap_issued pixels sys) ! ?cur)"
    by (subst rc_only_ctx(1) [OF r ci]) simp
  also have "\<dots> = pixels"
    using c assms(1) by (simp add: Swap_issued_ctx)
  finally have bm: "buffer_mapping (picture_contexts sys' ! ?cur) = pixels"
    using s ok c len8 by simp
  from rc_only_events [OF r] obtain es where es: "events s8 = events (Swap_issued pixels sys) @ es"
    by blast
  have ne: "new_events sys sys' =
      (if current sys then [] else [EglMakeCurrent True])
       @ [GL (BindBuffer (pixelbuffers sys ! ?cur)),
          GL (BindFramebuffer GL_FRAMEBUFFER (framebuffers sys ! ?cur))]
       @ (if buffer_mapping (picture_contexts sys ! ?cur) \<noteq> NULL then [GL UnmapBuffer] else [])
       @ [GL (ReadPixels (to_GLsizei (i_visible_width sys)) (to_GLsizei (i_visible_height sys))),
          GL (MapBufferRange (to_GLsizei (i_visible_width sys) * to_GLsizei (i_visible_height sys) * 4)),
          GL GetIntegerv, RcIncr ?cur, MutexLock (sys_lock sys)]
       @ es @ [MutexUnlock (sys_lock sys), GL (BindFramebuffer GL_DRAW_FRAMEBUFFER (framebuffers sys ! i))]
       @ (if current sys then [] else [EglMakeCurrent False])"
    unfolding new_events_def s using es ok
    by (simp add: Swap_issued_def Let_def)
  have w: "uint (i_visible_width sys) < 2 ^ 31 \<longrightarrow> to_GLsizei (i_visible_width sys) = uint (i_visible_width sys)"
    and h: "uint (i_visible_height sys) < 2 ^ 31 \<longrightarrow> to_GLsizei (i_visible_height sys) = uint (i_visible_height sys)"
    unfolding to_GLsizei_def by (simp_all add: sint_eq_uint_32)
  show ?thesis
    using pic bm w h unfolding ne by simp
qed


theorem Swap_output_frame_witness:
  "length (picture_contexts pool0) = BUFFER_COUNT
   \<and> Swap False 4096 True [] pool0 =
       Ret (Some \<lparr>p_pixels = 4096, i_lines = 64, i_pitch = 256, context_p = Some 3\<rparr>,
            Swap_returned True 3 0 (Swap_issued 4096 pool0))
   \<and> context_p \<lparr>p_pixels = 4096, i_lines = 64, i_pitch = 256, context_p = Some 3\<rparr>
        = Some (current_flip pool0)
   \<and> buffer_mapping (picture_contexts (Swap_returned True 3 0 (Swap_issued 4096 pool0))
        ! current_flip pool0) = 4096"
proof -
  have h: "Swap False 4096 True [] pool0 =
       Ret (Some \<lparr>p_pixels = 4096, i_lines = 64, i_pitch = 256, context_p = Some 3\<rparr>,
            Swap_returned True 3 0 (Swap_issued 4096 pool0))"
    by (simp add: Swap_pool0)
  from Swap_output_frame [OF pool0_ok(1) h]
  have "context_p \<lparr>p_pixels = 4096, i_lines = 64, i_pitch = 256, context_p = Some 3\<rparr>
        = Some (current_flip pool0)
     \<and> buffer_mapping (picture_contexts (Swap_returned True 3 0 (Swap_issued 4096 pool0))
        ! current_flip pool0) = 4096"
    by blast
  with pool0_ok(1) h show ?thesis by blast
qed

subsection \<open>The read-back\<close>

text \<open>
  C7. Whenever \<open>Swap\<close> returns, or blocks in \<open>UpdateBuffer\<close>, the calls it has made
  begin as follows: \<open>eglMakeCurrent\<close> if the context was not current; the pixel buffer and
  the framebuffer of the current slot are bound; then, if the \<open>buffer_mapping\<close> of the
  slot is not \<open>NULL\<close>, \<open>UnmapBuffer\<close>, and nothing if it is \<open>NULL\<close>; then \<open>ReadPixels\<close>.
  No later call of the cycle is \<open>UnmapBuffer\<close>. So a buffer still mapped is unmapped
  once, before the read into it, and a buffer not mapped is never unmapped.
\<close>

theorem Swap_unmaps_before_read:
  assumes "length (picture_contexts sys) = BUFFER_COUNT"
    and "Swap ndebug pixels alloc_ok wakeups sys = Ret (out, sys')
         \<or> Swap ndebug pixels alloc_ok wakeups sys = Blocked sys'"
  shows "\<exists>rest. new_events sys sys' =
      (if current sys then [] else [EglMakeCurrent True])
       @ [GL (BindBuffer (pixelbuffers sys ! current_flip sys)),
          GL (BindFramebuffer GL_FRAMEBUFFER (framebuffers sys ! current_flip sys))]
       @ (if buffer_mapping (picture_contexts sys ! current_flip sys) \<noteq> NULL
          then [GL UnmapBuffer] else [])
       @ [GL (ReadPixels (to_GLsizei (i_visible_width sys)) (to_GLsizei (i_visible_height sys)))]
       @ rest
     \<and> GL UnmapBuffer \<notin> set rest"
proof -
  let ?cur = "current_flip sys"
  let ?tl = "[GL (MapBufferRange (to_GLsizei (i_visible_width sys) * to_GLsizei (i_visible_height sys) * 4)),
          GL GetIntegerv, RcIncr ?cur, MutexLock (sys_lock sys)]"
  have iss: "events (Swap_issued pixels sys) = events sys @
      (if current sys then [] else [EglMakeCurrent True])
       @ [GL (BindBuffer (pixelbuffers sys ! ?cur)),
          GL (BindFramebuffer GL_FRAMEBUFFER (framebuffers sys ! ?cur))]
       @ (if buffer_mapping (picture_contexts sys ! ?cur) \<noteq> NULL then [GL UnmapBuffer] else [])
       @ [GL (ReadPixels (to_GLsizei (i_visible_width sys)) (to_GLsizei (i_visible_height sys)))]
       @ ?tl"
    by (simp add: Swap_issued_def Let_def)
  from assms(2) show ?thesis
  proof
    assume r: "Swap ndebug pixels alloc_ok wakeups sys = Ret (out, sys')"
    from Swap_Ret_facts [OF r assms(1)] obtain i s8 where
      ro: "rc_only (touched wakeups) (Swap_issued pixels sys) s8"
      and s: "sys' = s8\<lparr>current_flip := i,
            picture_contexts := (picture_contexts s8)[?cur :=
               (if alloc_ok then (picture_contexts s8 ! ?cur)\<lparr>vctx := NULL\<rparr>
                else (picture_contexts s8 ! ?cur)\<lparr>rc := rc (picture_contexts s8 ! ?cur) - 1\<rparr>)],
            events := events s8 @ [MutexUnlock (sys_lock sys),
                GL (BindFramebuffer GL_DRAW_FRAMEBUFFER (framebuffers sys ! i))]
              @ (if current sys then [] else [EglMakeCurrent False])
              @ (if alloc_ok then [] else [RcDecr ?cur])\<rparr>"
      by metis
    from rc_only_events [OF ro] obtain es where es: "events s8 = events (Swap_issued pixels sys) @ es"
      and g: "\<forall>g. GL g \<notin> set es" by blast
    let ?rest = "?tl @ es @ [MutexUnlock (sys_lock sys),
                GL (BindFramebuffer GL_DRAW_FRAMEBUFFER (framebuffers sys ! i))]
              @ (if current sys then [] else [EglMakeCurrent False])
              @ (if alloc_ok then [] else [RcDecr ?cur])"
    have "new_events sys sys' =
      (if current sys then [] else [EglMakeCurrent True])
       @ [GL (BindBuffer (pixelbuffers sys ! ?cur)),
          GL (BindFramebuffer GL_FRAMEBUFFER (framebuffers sys ! ?cur))]
       @ (if buffer_mapping (picture_contexts sys ! ?cur) \<noteq> NULL then [GL UnmapBuffer] else [])
       @ [GL (ReadPixels (to_GLsizei (i_visible_width sys)) (to_GLsizei (i_visible_height sys)))]
       @ ?rest"
      unfolding new_events_def s using es iss by simp
    moreover have "GL UnmapBuffer \<notin> set ?rest" using g by simp
    ultimately show ?thesis by blast
  next
    assume b: "Swap ndebug pixels alloc_ok wakeups sys = Blocked sys'"
    from Swap_Blocked [OF b assms(1)]
    have l: "UpdateBuffer_loop ndebug wakeups (Swap_issued pixels sys) = Blocked sys'" by simp
    have len: "length (picture_contexts (Swap_issued pixels sys)) = BUFFER_COUNT"
      using assms(1) by simp
    from rc_only_events [OF UpdateBuffer_loop_Blocked [OF l len]]
    obtain es where es: "events sys' = events (Swap_issued pixels sys) @ es"
      and g: "\<forall>g. GL g \<notin> set es" by blast
    let ?rest = "?tl @ es"
    have "new_events sys sys' =
      (if current sys then [] else [EglMakeCurrent True])
       @ [GL (BindBuffer (pixelbuffers sys ! ?cur)),
          GL (BindFramebuffer GL_FRAMEBUFFER (framebuffers sys ! ?cur))]
       @ (if buffer_mapping (picture_contexts sys ! ?cur) \<noteq> NULL then [GL UnmapBuffer] else [])
       @ [GL (ReadPixels (to_GLsizei (i_visible_width sys)) (to_GLsizei (i_visible_height sys)))]
       @ ?rest"
      unfolding new_events_def using es iss by simp
    moreover have "GL UnmapBuffer \<notin> set ?rest" using g by simp
    ultimately show ?thesis by blast
  qed
qed

theorem Swap_unmaps_before_read_witness:
  "length (picture_contexts pool_mapped) = BUFFER_COUNT
   \<and> buffer_mapping (picture_contexts pool_mapped ! current_flip pool_mapped) \<noteq> NULL
   \<and> Swap False 8192 True [] pool_mapped =
       Ret (Some \<lparr>p_pixels = 8192, i_lines = 64, i_pitch = 256, context_p = Some 3\<rparr>,
            Swap_returned True 3 0 (Swap_issued 8192 pool_mapped))
   \<and> (\<exists>rest. new_events pool_mapped (Swap_returned True 3 0 (Swap_issued 8192 pool_mapped)) =
         [EglMakeCurrent True, GL (BindBuffer 14), GL (BindFramebuffer GL_FRAMEBUFFER 24),
          GL UnmapBuffer, GL (ReadPixels 64 64)] @ rest
        \<and> GL UnmapBuffer \<notin> set rest)"
proof -
  have m: "buffer_mapping (picture_contexts pool_mapped ! current_flip pool_mapped) \<noteq> NULL"
    by (simp add: NULL_def)
  have h: "Swap False 8192 True [] pool_mapped =
       Ret (Some \<lparr>p_pixels = 8192, i_lines = 64, i_pitch = 256, context_p = Some 3\<rparr>,
            Swap_returned True 3 0 (Swap_issued 8192 pool_mapped))
     \<or> Swap False 8192 True [] pool_mapped =
       Blocked (Swap_returned True 3 0 (Swap_issued 8192 pool_mapped))"
    using Swap_pool_mapped by simp
  from Swap_unmaps_before_read [OF pool_mapped_ok(1) h] m
  have "\<exists>rest. new_events pool_mapped (Swap_returned True 3 0 (Swap_issued 8192 pool_mapped)) =
         [EglMakeCurrent True, GL (BindBuffer 14), GL (BindFramebuffer GL_FRAMEBUFFER 24),
          GL UnmapBuffer, GL (ReadPixels 64 64)] @ rest
        \<and> GL UnmapBuffer \<notin> set rest"
    by (simp add: to_GLsizei_def)
  with pool_mapped_ok(1) m Swap_pool_mapped show ?thesis by blast
qed

subsection \<open>What a cycle changes\<close>




subsection \<open>The error path\<close>

text \<open>
  C4. When \<open>picture_NewFromResource\<close> fails and \<open>Swap\<close> returns, it returns \<open>NULL\<close>, and
  the count of the slot that was current at entry is what it was at entry, so 0 if it
  was 0: the \<open>rc++\<close> of line 312 is among the events of the call and the \<open>rc--\<close> of line
  342 is the last of them. This holds when no consumer works on that slot while the
  producer waits. The mapping of the slot stays the new pointer. A \<open>Swap\<close> that returns
  this way is one of a build without assertions: with them, \<open>assert(output)\<close> stops the
  program before the error path is taken.
\<close>

theorem Swap_failure_restores_rc:
  assumes "length (picture_contexts sys) = BUFFER_COUNT"
    and "current_flip sys \<notin> touched wakeups"
    and "Swap ndebug pixels False wakeups sys = Ret (out, sys')"
  shows "out = None \<and> ndebug
     \<and> rc (picture_contexts sys' ! current_flip sys) = rc (picture_contexts sys ! current_flip sys)
     \<and> (rc (picture_contexts sys ! current_flip sys) = 0 \<longrightarrow>
           rc (picture_contexts sys' ! current_flip sys) = 0)
     \<and> picture_contexts sys' ! current_flip sys =
          (picture_contexts sys ! current_flip sys)\<lparr>buffer_mapping := pixels\<rparr>
     \<and> RcIncr (current_flip sys) \<in> set (new_events sys sys')
     \<and> last (new_events sys sys') = RcDecr (current_flip sys)"
proof -
  let ?cur = "current_flip sys"
  let ?I = "Swap_issued pixels sys"
  from Swap_Ret_facts [OF assms(3) assms(1)] obtain i s8 where c: "?cur < BUFFER_COUNT"
    and r: "rc_only (touched wakeups) ?I s8"
    and nd: "False \<or> ndebug"
    and o: "out = (if False then Some \<lparr>p_pixels = pixels, i_lines = to_GLsizei (i_visible_height sys),
                    i_pitch = to_GLsizei (i_visible_width sys) * 4, context_p = Some ?cur\<rparr>
               else None)"
    and s: "sys' = s8\<lparr>current_flip := i,
            picture_contexts := (picture_contexts s8)[?cur :=
               (if False then (picture_contexts s8 ! ?cur)\<lparr>vctx := NULL\<rparr>
                else (picture_contexts s8 ! ?cur)\<lparr>rc := rc (picture_contexts s8 ! ?cur) - 1\<rparr>)],
            events := events s8 @ [MutexUnlock (sys_lock sys),
                GL (BindFramebuffer GL_DRAW_FRAMEBUFFER (framebuffers sys ! i))]
              @ (if current sys then [] else [EglMakeCurrent False])
              @ (if False then [] else [RcDecr ?cur])\<rparr>"
    by metis
  note f = rc_only_fields [OF r]
  have len8: "length (picture_contexts s8) = BUFFER_COUNT" using f(10) assms(1) by simp
  have lenI: "?cur < length (picture_contexts ?I)" using c assms(1) by simp
  have curI: "picture_contexts ?I ! ?cur =
      (picture_contexts sys ! ?cur)\<lparr>buffer_mapping := pixels, rc := rc (picture_contexts sys ! ?cur) + 1\<rparr>"
    using c assms(1) by (simp add: Swap_issued_ctx)
  have cur8: "picture_contexts s8 ! ?cur = picture_contexts ?I ! ?cur"
    using rc_only_ctx(2) [OF r lenI assms(2)] .
  have cur': "picture_contexts sys' ! ?cur =
      (picture_contexts s8 ! ?cur)\<lparr>rc := rc (picture_contexts s8 ! ?cur) - 1\<rparr>"
    using s c len8 by simp
  have 1: "picture_contexts sys' ! ?cur = (picture_contexts sys ! ?cur)\<lparr>buffer_mapping := pixels\<rparr>"
    unfolding cur' cur8 curI by simp
  from rc_only_events [OF r] obtain es where es: "events s8 = events ?I @ es" by blast
  have ne: "new_events sys sys' =
      ((if current sys then [] else [EglMakeCurrent True])
       @ [GL (BindBuffer (pixelbuffers sys ! ?cur)),
          GL (BindFramebuffer GL_FRAMEBUFFER (framebuffers sys ! ?cur))]
       @ (if buffer_mapping (picture_contexts sys ! ?cur) \<noteq> NULL then [GL UnmapBuffer] else [])
       @ [GL (ReadPixels (to_GLsizei (i_visible_width sys)) (to_GLsizei (i_visible_height sys))),
          GL (MapBufferRange (to_GLsizei (i_visible_width sys) * to_GLsizei (i_visible_height sys) * 4)),
          GL GetIntegerv, RcIncr ?cur, MutexLock (sys_lock sys)]
       @ es @ [MutexUnlock (sys_lock sys), GL (BindFramebuffer GL_DRAW_FRAMEBUFFER (framebuffers sys ! i))]
       @ (if current sys then [] else [EglMakeCurrent False])) @ [RcDecr ?cur]"
    unfolding new_events_def s using es
    by (simp add: Swap_issued_def Let_def)
  have 2: "RcIncr ?cur \<in> set (new_events sys sys')" unfolding ne by simp
  have 3: "last (new_events sys sys') = RcDecr ?cur" unfolding ne by (rule last_snoc)
  from o nd 1 2 3 show ?thesis by simp
qed

theorem Swap_failure_restores_rc_witness:
  "length (picture_contexts pool0) = BUFFER_COUNT
   \<and> current_flip pool0 \<notin> touched []
   \<and> Swap True 4096 False [] pool0 = Ret (None, Swap_returned False 3 0 (Swap_issued 4096 pool0))
   \<and> rc (picture_contexts pool0 ! current_flip pool0) = 0
   \<and> rc (picture_contexts (Swap_returned False 3 0 (Swap_issued 4096 pool0)) ! current_flip pool0) = 0"
proof -
  have h: "Swap True 4096 False [] pool0 = Ret (None, Swap_returned False 3 0 (Swap_issued 4096 pool0))"
    by (simp add: Swap_pool0)
  have t: "current_flip pool0 \<notin> touched []" by simp
  have z: "rc (picture_contexts pool0 ! current_flip pool0) = 0" by simp
  from Swap_failure_restores_rc [OF pool0_ok(1) t h] z
  have "rc (picture_contexts (Swap_returned False 3 0 (Swap_issued 4096 pool0)) ! current_flip pool0) = 0"
    by blast
  with pool0_ok(1) t h z show ?thesis by blast
qed


subsection \<open>The pool after Open\<close>

text \<open>
  C9. After a successful \<open>Open\<close> the pool has \<open>BUFFER_COUNT\<close> = 4 slots, every context
  has count 0 and a \<open>NULL\<close> mapping, and \<open>current_flip\<close> is \<open>BUFFER_COUNT - 1\<close> = 3, not 0.
  The draw framebuffer that \<open>Open\<close> binds is that of slot 3: it is the only bind to
  \<open>GL_DRAW_FRAMEBUFFER\<close> that \<open>Open\<close> makes, and its last GL call. So a picture that the
  first \<open>Swap\<close> returns carries the context of slot 3; and when the output size does
  not overflow, the first \<open>Swap\<close> with a successful allocation does return such a
  picture, and moves on to slot 0.
\<close>

theorem Open_initial_pool:
  assumes "length (picture_contexts sys0) = BUFFER_COUNT"
    and "Open ndebug env w h sys0 = Ret (VLC_SUCCESS, Some s)"
  shows "length (picture_contexts s) = BUFFER_COUNT
     \<and> (\<forall>j<BUFFER_COUNT. rc (picture_contexts s ! j) = 0
           \<and> buffer_mapping (picture_contexts s ! j) = NULL)
     \<and> current_flip s = BUFFER_COUNT - 1 \<and> current_flip s = 3
     \<and> (\<exists>es. events s = events sys0 @ es
            @ [GL (BindFramebuffer GL_DRAW_FRAMEBUFFER (framebuffers s ! 3)), EglMakeCurrent False]
           \<and> (\<forall>x. GL (BindFramebuffer GL_DRAW_FRAMEBUFFER x) \<notin> set es))
     \<and> (\<forall>nd pixels alloc_ok ws pic s'.
           Swap nd pixels alloc_ok ws s = Ret (Some pic, s') \<longrightarrow> context_p pic = Some 3)
     \<and> (dims_ok s \<longrightarrow>
          (\<forall>nd pixels ws. Swap nd pixels True ws s =
             Ret (Some \<lparr>p_pixels = pixels, i_lines = to_GLsizei h, i_pitch = to_GLsizei w * 4,
                        context_p = Some 3\<rparr>,
                  Swap_returned True 3 0 (Swap_issued pixels s))))"
proof -
  note o = Open_success [OF assms(2) assms(1)]
  have bc: "BUFFER_COUNT - 1 = 3" by (simp add: BUFFER_COUNT_def)
  have len: "length (picture_contexts s) = BUFFER_COUNT"
    using o(1) by (simp add: BUFFER_COUNT_def)
  have rcs: "\<forall>j<BUFFER_COUNT. rc (picture_contexts s ! j) = 0
           \<and> buffer_mapping (picture_contexts s ! j) = NULL"
  proof (intro allI impI)
    fix j assume "j < BUFFER_COUNT"
    then have "j = 0 \<or> j = 1 \<or> j = 2 \<or> j = 3" by (auto simp: BUFFER_COUNT_def)
    then show "rc (picture_contexts s ! j) = 0 \<and> buffer_mapping (picture_contexts s ! j) = NULL"
      using o(1) by (auto simp: Open_ctx_def)
  qed
  have cf: "current_flip s = 3" using o(6) bc by simp
  have ev: "\<exists>es. events s = events sys0 @ es
            @ [GL (BindFramebuffer GL_DRAW_FRAMEBUFFER (framebuffers s ! 3)), EglMakeCurrent False]
           \<and> (\<forall>x. GL (BindFramebuffer GL_DRAW_FRAMEBUFFER x) \<notin> set es)"
    using o(11) bc by simp
  have first: "\<forall>nd pixels alloc_ok ws pic s'.
           Swap nd pixels alloc_ok ws s = Ret (Some pic, s') \<longrightarrow> context_p pic = Some 3"
  proof (intro allI impI)
    fix nd pixels alloc_ok ws pic s'
    assume r: "Swap nd pixels alloc_ok ws s = Ret (Some pic, s')"
    from Swap_Ret_facts [OF r len] obtain i s8 where
      "Some pic = (if alloc_ok then Some \<lparr>p_pixels = pixels, i_lines = to_GLsizei (i_visible_height s),
                    i_pitch = to_GLsizei (i_visible_width s) * 4, context_p = Some (current_flip s)\<rparr>
               else None)"
      by metis
    then show "context_p pic = Some 3" using cf by (auto split: if_splits)
  qed
  have ex: "dims_ok s \<longrightarrow>
          (\<forall>nd pixels ws. Swap nd pixels True ws s =
             Ret (Some \<lparr>p_pixels = pixels, i_lines = to_GLsizei h, i_pitch = to_GLsizei w * 4,
                        context_p = Some 3\<rparr>,
                  Swap_returned True 3 0 (Swap_issued pixels s)))"
  proof (intro allI impI)
    fix nd pixels ws
    assume d: "dims_ok s"
    have c: "current_flip s < BUFFER_COUNT" using cf by (simp add: BUFFER_COUNT_def)
    have r: "rc (picture_contexts s ! current_flip s) \<noteq> INT_MAX"
      using rcs c by (simp add: INT_MAX_def)
    have z: "(0::nat) < BUFFER_COUNT" by (simp add: BUFFER_COUNT_def)
    have r0: "rc (picture_contexts (Swap_issued pixels s) ! 0) = 0"
      using rcs z cf by (simp add: Swap_issued_ctx)
    have "Swap nd pixels True ws s =
     (if True
      then Ret (Some \<lparr>p_pixels = pixels, i_lines = to_GLsizei (i_visible_height s),
                  i_pitch = to_GLsizei (i_visible_width s) * 4,
                  context_p = Some (current_flip s)\<rparr>,
                Swap_returned True (current_flip s) 0 (Swap_issued pixels s))
      else if \<not> nd then AssertFailed
      else if rc (picture_contexts (Swap_issued pixels s) ! current_flip s) = INT_MIN then Undefined
      else Ret (None, Swap_returned False (current_flip s) 0 (Swap_issued pixels s)))"
      by (rule Swap_found [OF c len d r z r0]) simp
    then show "Swap nd pixels True ws s =
             Ret (Some \<lparr>p_pixels = pixels, i_lines = to_GLsizei h, i_pitch = to_GLsizei w * 4,
                        context_p = Some 3\<rparr>,
                  Swap_returned True 3 0 (Swap_issued pixels s))"
      using cf o(4,5) by simp
  qed
  from len rcs o(6) cf ev first ex show ?thesis by blast
qed

theorem Open_initial_pool_witness:
  "length (picture_contexts block0) = BUFFER_COUNT
   \<and> Open False env0 64 64 block0 = Ret (VLC_SUCCESS, Some opened0)
   \<and> current_flip opened0 = 3
   \<and> rc (picture_contexts opened0 ! 0) = 0 \<and> buffer_mapping (picture_contexts opened0 ! 0) = NULL
   \<and> rc (picture_contexts opened0 ! 3) = 0 \<and> buffer_mapping (picture_contexts opened0 ! 3) = NULL
   \<and> dims_ok opened0
   \<and> Swap False 4096 True [] opened0 =
        Ret (Some \<lparr>p_pixels = 4096, i_lines = to_GLsizei 64, i_pitch = to_GLsizei 64 * 4,
                   context_p = Some 3\<rparr>,
             Swap_returned True 3 0 (Swap_issued 4096 opened0))"
proof -
  note t = Open_initial_pool [OF block0_len Open_opened0]
  have w: "i_visible_width opened0 = 64" "i_visible_height opened0 = 64"
    using Open_success(4,5) [OF Open_opened0 block0_len] by simp_all
  have d: "dims_ok opened0"
    by (simp add: dims_ok_def w to_GLsizei_def INT_MIN_def INT_MAX_def)
  have a: "current_flip opened0 = 3" using t by blast
  have z: "(0::nat) < BUFFER_COUNT" "(3::nat) < BUFFER_COUNT" by (simp_all add: BUFFER_COUNT_def)
  have b: "rc (picture_contexts opened0 ! 0) = 0 \<and> buffer_mapping (picture_contexts opened0 ! 0) = NULL"
    "rc (picture_contexts opened0 ! 3) = 0 \<and> buffer_mapping (picture_contexts opened0 ! 3) = NULL"
    using t z by blast+
  have c: "Swap False 4096 True [] opened0 =
        Ret (Some \<lparr>p_pixels = 4096, i_lines = to_GLsizei 64, i_pitch = to_GLsizei 64 * 4,
                   context_p = Some 3\<rparr>,
             Swap_returned True 3 0 (Swap_issued 4096 opened0))"
    using t d by blast
  from block0_len Open_opened0 a b d c show ?thesis by blast
qed


subsection \<open>Running out of slots\<close>

text \<open>
  C3, as the code has it. Take a fresh pool of \<open>BUFFER_COUNT\<close> = 4 slots: every count 0
  and slot 3 the draw target, as \<open>Open\<close> leaves it. With no frame disposed, the first
  three cycles return their pictures without waiting, whatever the wakeups would be:
  the pictures carry the contexts of slots 3, 0 and 1, and the scans find slots 0, 1
  and 2. The fourth cycle counts its own slot 2 before it scans, so all four counts are
  1 and the scan finds nothing: with no consumer operation during its waits (spurious
  wakeups only) the fourth \<open>Swap\<close> blocks in \<open>vlc_cond_wait\<close>, whether or not the picture
  could be allocated. It returns its picture, of slot 2, when a consumer disposes one
  of the first three frames during the wait, and moves on to the slot just freed.
  The cycle that blocks is the fourth, not the fifth.
\<close>

theorem producer_blocks_on_fourth_cycle:
  assumes "length (picture_contexts s0) = BUFFER_COUNT"
    and "current_flip s0 = BUFFER_COUNT - 1"
    and "\<forall>j<BUFFER_COUNT. rc (picture_contexts s0 ! j) = 0"
    and "dims_ok s0"
  shows "\<exists>s1 s2 s3.
      Swap ndebug p1 True ws1 s0 = Ret (Some (frame s0 p1 3), s1) \<and> current_flip s1 = 0
    \<and> Swap ndebug p2 True ws2 s1 = Ret (Some (frame s0 p2 0), s2) \<and> current_flip s2 = 1
    \<and> Swap ndebug p3 True ws3 s2 = Ret (Some (frame s0 p3 1), s3) \<and> current_flip s3 = 2
    \<and> (\<forall>ws alloc_ok. (\<forall>w\<in>set ws. w = []) \<longrightarrow>
          (\<exists>sb. Swap ndebug p4 alloc_ok ws s3 = Blocked sb
             \<and> (\<forall>j<BUFFER_COUNT. rc (picture_contexts sb ! j) = 1)
             \<and> last (events sb) = CondWait (sys_cond s0) (sys_lock s0)))
    \<and> (\<forall>k ws. k = 3 \<or> k = 0 \<or> k = 1 \<longrightarrow>
          (\<exists>s4. Swap ndebug p4 True ([Destroy k] # ws) s3 = Ret (Some (frame s0 p4 2), s4)
             \<and> current_flip s4 = k))"
proof -
  from fresh_pool_cycles [OF assms, of ndebug p1 ws1 p2 ws2 p3 ws3]
  obtain s1 s2 s3 where
    sw: "Swap ndebug p1 True ws1 s0 = Ret (Some (frame s0 p1 3), s1)" "current_flip s1 = 0"
      "Swap ndebug p2 True ws2 s1 = Ret (Some (frame s0 p2 0), s2)" "current_flip s2 = 1"
      "Swap ndebug p3 True ws3 s2 = Ret (Some (frame s0 p3 1), s3)" "current_flip s3 = 2"
    and len: "length (picture_contexts s3) = BUFFER_COUNT" and d: "dims_ok s3"
    and f: "sys_lock s3 = sys_lock s0" "sys_cond s3 = sys_cond s0"
      "i_visible_width s3 = i_visible_width s0" "i_visible_height s3 = i_visible_height s0"
    and rc3: "\<forall>j<BUFFER_COUNT. rc (picture_contexts s3 ! j) = (if j = 2 then 0 else 1)"
    by blast
  have c: "current_flip s3 < BUFFER_COUNT" using sw(6) by (simp add: BUFFER_COUNT_def)
  have cl: "current_flip s3 < length (picture_contexts s3)" using c len by simp
  have r: "rc (picture_contexts s3 ! current_flip s3) \<noteq> INT_MAX"
    using rc3 c sw(6) by (simp add: INT_MAX_def)
  have rcI: "\<And>p j. j < BUFFER_COUNT \<Longrightarrow> rc (picture_contexts (Swap_issued p s3) ! j) = 1"
    using rc3 sw(6) by (simp add: Swap_issued_rc [OF cl])
  have none: "\<And>p. \<forall>j<BUFFER_COUNT. passes ndebug (picture_contexts (Swap_issued p s3) ! j)"
    using rcI by (simp add: passes_def)
  have blocked: "\<forall>ws alloc_ok. (\<forall>w\<in>set ws. w = []) \<longrightarrow>
          (\<exists>sb. Swap ndebug p4 alloc_ok ws s3 = Blocked sb
             \<and> (\<forall>j<BUFFER_COUNT. rc (picture_contexts sb ! j) = 1)
             \<and> last (events sb) = CondWait (sys_cond s0) (sys_lock s0))"
  proof (intro allI impI)
    fix ws :: "consumer_op list list" and alloc_ok
    assume sp: "\<forall>w\<in>set ws. w = []"
    from Swap_blocks [OF len c d r none [of p4] sp, of alloc_ok]
    obtain sb where "Swap ndebug p4 alloc_ok ws s3 = Blocked sb"
      and "picture_contexts sb = picture_contexts (Swap_issued p4 s3)"
      and "last (events sb) = CondWait (sys_cond s3) (sys_lock s3)" by blast
    then show "\<exists>sb. Swap ndebug p4 alloc_ok ws s3 = Blocked sb
             \<and> (\<forall>j<BUFFER_COUNT. rc (picture_contexts sb ! j) = 1)
             \<and> last (events sb) = CondWait (sys_cond s0) (sys_lock s0)"
      using rcI f by simp
  qed
  have released: "\<forall>k ws. k = 3 \<or> k = 0 \<or> k = 1 \<longrightarrow>
          (\<exists>s4. Swap ndebug p4 True ([Destroy k] # ws) s3 = Ret (Some (frame s0 p4 2), s4)
             \<and> current_flip s4 = k)"
  proof (intro allI impI)
    fix k :: nat and ws assume "k = 3 \<or> k = 0 \<or> k = 1"
    then have k: "k < BUFFER_COUNT" by (auto simp: BUFFER_COUNT_def)
    from Swap_released [OF len c d r none [of p4] k rcI [OF k], of ws]
    show "\<exists>s4. Swap ndebug p4 True ([Destroy k] # ws) s3 = Ret (Some (frame s0 p4 2), s4)
             \<and> current_flip s4 = k"
      using f sw(6) by (simp add: frame_def)
  qed
  from sw blocked released show ?thesis by blast
qed

theorem producer_blocks_on_fourth_cycle_witness:
  "length (picture_contexts pool0) = BUFFER_COUNT
   \<and> current_flip pool0 = BUFFER_COUNT - 1
   \<and> rc (picture_contexts pool0 ! 0) = 0 \<and> rc (picture_contexts pool0 ! 1) = 0
   \<and> rc (picture_contexts pool0 ! 2) = 0 \<and> rc (picture_contexts pool0 ! 3) = 0
   \<and> dims_ok pool0
   \<and> (\<exists>s1 s2 s3.
        Swap False 4096 True [] pool0 = Ret (Some (frame pool0 4096 3), s1)
      \<and> Swap False 8192 True [] s1 = Ret (Some (frame pool0 8192 0), s2)
      \<and> Swap False 12288 True [] s2 = Ret (Some (frame pool0 12288 1), s3)
      \<and> (\<exists>sb. Swap False 16384 True [] s3 = Blocked sb)
      \<and> (\<exists>s4. Swap False 16384 True [[Destroy 3]] s3 = Ret (Some (frame pool0 16384 2), s4)
            \<and> current_flip s4 = 3))"
proof -
  have z: "rc (picture_contexts pool0 ! 0) = 0" "rc (picture_contexts pool0 ! 1) = 0"
    "rc (picture_contexts pool0 ! 2) = 0" "rc (picture_contexts pool0 ! 3) = 0" by simp_all
  from producer_blocks_on_fourth_cycle [OF pool0_ok(1) pool0_fresh(1) pool0_fresh(2) pool0_ok(3),
      of False 4096 "[]" 8192 "[]" 12288 "[]" 16384]
  obtain s1 s2 s3 where sw: "Swap False 4096 True [] pool0 = Ret (Some (frame pool0 4096 3), s1)"
      "Swap False 8192 True [] s1 = Ret (Some (frame pool0 8192 0), s2)"
      "Swap False 12288 True [] s2 = Ret (Some (frame pool0 12288 1), s3)"
    and b: "\<forall>ws alloc_ok. (\<forall>w\<in>set ws. w = []) \<longrightarrow>
          (\<exists>sb. Swap False 16384 alloc_ok ws s3 = Blocked sb
             \<and> (\<forall>j<BUFFER_COUNT. rc (picture_contexts sb ! j) = 1)
             \<and> last (events sb) = CondWait (sys_cond pool0) (sys_lock pool0))"
    and r: "\<forall>k ws. k = 3 \<or> k = 0 \<or> k = 1 \<longrightarrow>
          (\<exists>s4. Swap False 16384 True ([Destroy k] # ws) s3 = Ret (Some (frame pool0 16384 2), s4)
             \<and> current_flip s4 = k)"
    by blast
  have e: "\<forall>w\<in>set ([] :: consumer_op list list). w = []" by simp
  from b e have b': "\<exists>sb. Swap False 16384 True [] s3 = Blocked sb" by blast
  from r have r': "\<exists>s4. Swap False 16384 True [[Destroy 3]] s3 = Ret (Some (frame pool0 16384 2), s4)
            \<and> current_flip s4 = 3" by blast
  from sw b' r' have "\<exists>s1 s2 s3.
        Swap False 4096 True [] pool0 = Ret (Some (frame pool0 4096 3), s1)
      \<and> Swap False 8192 True [] s1 = Ret (Some (frame pool0 8192 0), s2)
      \<and> Swap False 12288 True [] s2 = Ret (Some (frame pool0 12288 1), s3)
      \<and> (\<exists>sb. Swap False 16384 True [] s3 = Blocked sb)
      \<and> (\<exists>s4. Swap False 16384 True [[Destroy 3]] s3 = Ret (Some (frame pool0 16384 2), s4)
            \<and> current_flip s4 = 3)" by blast
  with pool0_ok(1) pool0_fresh(1) z pool0_ok(3) show ?thesis by blast
qed

theorem four_cycles_block_counterexample:
  "is_Ret (produce False [4096, 8192, 12288] pool0)
   \<and> is_Blocked (produce False [4096, 8192, 12288, 16384] pool0)"
proof -
  from fresh_pool_cycles [OF pool0_ok(1) pool0_fresh(1) pool0_fresh(2) pool0_ok(3),
      of False 4096 "[]" 8192 "[]" 12288 "[]"]
  obtain s1 s2 s3 where sw: "Swap False 4096 True [] pool0 = Ret (Some (frame pool0 4096 3), s1)"
      "Swap False 8192 True [] s1 = Ret (Some (frame pool0 8192 0), s2)"
      "Swap False 12288 True [] s2 = Ret (Some (frame pool0 12288 1), s3)"
    and f: "current_flip s3 = 2" "length (picture_contexts s3) = BUFFER_COUNT" "dims_ok s3"
    and rc3: "\<forall>j<BUFFER_COUNT. rc (picture_contexts s3 ! j) = (if j = 2 then 0 else 1)"
    by blast
  have c: "current_flip s3 < BUFFER_COUNT" using f(1) by (simp add: BUFFER_COUNT_def)
  have cl: "current_flip s3 < length (picture_contexts s3)" using c f(2) by simp
  have r: "rc (picture_contexts s3 ! current_flip s3) \<noteq> INT_MAX"
    using rc3 c f(1) by (simp add: INT_MAX_def)
  have none: "\<forall>j<BUFFER_COUNT. passes False (picture_contexts (Swap_issued 16384 s3) ! j)"
    using rc3 f(1) by (simp add: Swap_issued_rc [OF cl] passes_def)
  have e: "\<forall>w\<in>set ([] :: consumer_op list list). w = []" by simp
  from Swap_blocks [OF f(2) c f(3) r none e, of True]
  obtain sb where b: "Swap False 16384 True [] s3 = Blocked sb" by blast
  have "produce False [4096, 8192, 12288] pool0
      = Ret ([Some (frame pool0 4096 3), Some (frame pool0 8192 0), Some (frame pool0 12288 1)], s3)"
    using sw by simp
  moreover have "produce False [4096, 8192, 12288, 16384] pool0 = Blocked sb"
    using sw b by simp
  ultimately show ?thesis by simp
qed


subsection \<open>The mutex\<close>






subsection \<open>The reference counts\<close>

text \<open>
  C1. From a pool of \<open>BUFFER_COUNT\<close> contexts whose counts are all at least 0, every run of
  \<open>picture_context_copy\<close> and \<open>picture_context_destroy\<close> calls that returns and keeps to the
  protocol (no \<open>Destroy\<close> on a count of 0) leaves all counts at least 0. In the state it
  leaves, the scan of \<open>UpdateBuffer\<close> hands out slot \<open>i\<close> exactly when the count of \<open>i\<close> is 0
  and no lower slot has count 0: a slot is passed over exactly because its count is not 0.
  A \<open>Destroy\<close> on a context whose count is 0 is outside the protocol: the call itself has
  no check and returns with the count at \<open>- 1\<close>, the counts are no longer all at least 0,
  and in a build with assertions the next scan that reaches the slot stops at
  \<open>assert(context->rc >= 0)\<close>.
\<close>

theorem rc_stays_nonnegative:
  assumes "length (picture_contexts sys) = BUFFER_COUNT"
    and "counts_ok sys"
    and "consumers xs sys = Ret sys'"
    and "holds_references xs sys"
  shows "counts_ok sys'
     \<and> (\<forall>ndebug i. i < BUFFER_COUNT \<longrightarrow>
           (UpdateBuffer_scan ndebug (picture_contexts sys') 0 = Ret i
              \<longleftrightarrow> rc (picture_contexts sys' ! i) = 0
                  \<and> (\<forall>j<i. rc (picture_contexts sys' ! j) \<noteq> 0)))
     \<and> (\<forall>i<BUFFER_COUNT. rc (picture_contexts sys' ! i) = 0 \<longrightarrow>
           \<not> holds_references [Destroy i] sys'
           \<and> (\<exists>s''. picture_context_destroy i sys' = Ret s''
                 \<and> rc (picture_contexts s'' ! i) = - 1
                 \<and> \<not> counts_ok s''
                 \<and> ((\<forall>j<i. rc (picture_contexts sys' ! j) \<noteq> 0) \<longrightarrow>
                       UpdateBuffer_scan False (picture_contexts s'') 0 = AssertFailed)))"
proof -
  from consumers_counts_ok [OF assms(3) assms(1) assms(2) assms(4)]
  have ok: "counts_ok sys'" and len: "length (picture_contexts sys') = BUFFER_COUNT" by simp_all
  have iff: "\<forall>ndebug i. i < BUFFER_COUNT \<longrightarrow>
           (UpdateBuffer_scan ndebug (picture_contexts sys') 0 = Ret i
              \<longleftrightarrow> rc (picture_contexts sys' ! i) = 0
                  \<and> (\<forall>j<i. rc (picture_contexts sys' ! j) \<noteq> 0))"
  proof (intro allI impI iffI)
    fix ndebug i
    assume i: "i < BUFFER_COUNT"
      and sc: "UpdateBuffer_scan ndebug (picture_contexts sys') 0 = Ret i"
    from scan_Ret_free [OF sc i]
    show "rc (picture_contexts sys' ! i) = 0 \<and> (\<forall>j<i. rc (picture_contexts sys' ! j) \<noteq> 0)"
      by simp
  next
    fix ndebug i
    assume i: "i < BUFFER_COUNT"
      and z: "rc (picture_contexts sys' ! i) = 0 \<and> (\<forall>j<i. rc (picture_contexts sys' ! j) \<noteq> 0)"
    show "UpdateBuffer_scan ndebug (picture_contexts sys') 0 = Ret i"
    proof (rule scan_lowest)
      show "0 \<le> i" by simp
      show "i < BUFFER_COUNT" by fact
      show "rc (picture_contexts sys' ! i) = 0" using z by simp
      show "\<forall>j. 0 \<le> j \<and> j < i \<longrightarrow> rc (picture_contexts sys' ! j) \<noteq> 0
          \<and> (ndebug \<or> 0 \<le> rc (picture_contexts sys' ! j))"
        using z ok i by (auto simp: counts_ok_iff)
    qed
  qed
  have viol: "\<forall>i<BUFFER_COUNT. rc (picture_contexts sys' ! i) = 0 \<longrightarrow>
           \<not> holds_references [Destroy i] sys'
           \<and> (\<exists>s''. picture_context_destroy i sys' = Ret s''
                 \<and> rc (picture_contexts s'' ! i) = - 1
                 \<and> \<not> counts_ok s''
                 \<and> ((\<forall>j<i. rc (picture_contexts sys' ! j) \<noteq> 0) \<longrightarrow>
                       UpdateBuffer_scan False (picture_contexts s'') 0 = AssertFailed))"
  proof (intro allI impI)
    fix i assume i: "i < BUFFER_COUNT" and z: "rc (picture_contexts sys' ! i) = 0"
    let ?s = "sys'\<lparr>picture_contexts :=
                (picture_contexts sys')[i := (picture_contexts sys' ! i)\<lparr>rc := rc (picture_contexts sys' ! i) - 1\<rparr>],
              events := events sys' @ [MutexLock (lock (picture_contexts sys' ! i)), RcDecr i,
                                      CondSignal (cond (picture_contexts sys' ! i)),
                                      MutexUnlock (lock (picture_contexts sys' ! i))]\<rparr>"
    have d: "picture_context_destroy i sys' = Ret ?s"
      using i z by (simp add: picture_context_destroy_Ret INT_MIN_def)
    have m: "rc (picture_contexts ?s ! i) = - 1" using i z len by simp
    have nok: "\<not> counts_ok ?s"
      unfolding counts_ok_iff using m i by (metis neg_0_le_iff_le not_one_le_zero)
    have as: "(\<forall>j<i. rc (picture_contexts sys' ! j) \<noteq> 0) \<longrightarrow>
                       UpdateBuffer_scan False (picture_contexts ?s) 0 = AssertFailed"
    proof
      assume nz: "\<forall>j<i. rc (picture_contexts sys' ! j) \<noteq> 0"
      show "UpdateBuffer_scan False (picture_contexts ?s) 0 = AssertFailed"
      proof (rule scan_assert [of 0 i])
        show "0 \<le> i" by simp
        show "i < BUFFER_COUNT" by fact
        show "rc (picture_contexts ?s ! i) < 0" using m by simp
        show "\<forall>j. 0 \<le> j \<and> j < i \<longrightarrow> 0 < rc (picture_contexts ?s ! j)"
        proof (intro allI impI)
          fix j assume j: "0 \<le> j \<and> j < i"
          then have jb: "j < BUFFER_COUNT" using i by simp
          from ok jb have "0 \<le> rc (picture_contexts sys' ! j)" by (simp add: counts_ok_iff)
          with nz j have "0 < rc (picture_contexts sys' ! j)" by (simp add: order_less_le)
          then show "0 < rc (picture_contexts ?s ! j)" using j by simp
        qed
      qed
    qed
    have nr: "\<not> holds_references [Destroy i] sys'" using z by simp
    from nr d m nok as show "\<not> holds_references [Destroy i] sys'
           \<and> (\<exists>s''. picture_context_destroy i sys' = Ret s''
                 \<and> rc (picture_contexts s'' ! i) = - 1
                 \<and> \<not> counts_ok s''
                 \<and> ((\<forall>j<i. rc (picture_contexts sys' ! j) \<noteq> 0) \<longrightarrow>
                       UpdateBuffer_scan False (picture_contexts s'') 0 = AssertFailed))"
      by blast
  qed
  from ok iff viol show ?thesis by blast
qed

theorem rc_stays_nonnegative_witness:
  "length (picture_contexts held0) = BUFFER_COUNT
   \<and> counts_ok held0
   \<and> holds_references [Copy 0, Destroy 0, Destroy 0] held0
   \<and> is_Ret (consumers [Copy 0, Destroy 0, Destroy 0] held0)
   \<and> counts_ok (ret_val (consumers [Copy 0, Destroy 0, Destroy 0] held0))
   \<and> UpdateBuffer_scan False
        (picture_contexts (ret_val (consumers [Copy 0, Destroy 0, Destroy 0] held0))) 0 = Ret 0
   \<and> \<not> holds_references [Destroy 0]
          (ret_val (consumers [Copy 0, Destroy 0, Destroy 0] held0))"
proof -
  let ?xs = "[Copy 0, Destroy 0, Destroy 0]"
  let ?s = "ret_val (consumers ?xs held0)"
  have r: "consumers ?xs held0 = Ret ?s" by (simp only: held0_run outcome.sel)
  have l: "length (picture_contexts held0) = BUFFER_COUNT"
    by (simp add: held0_def pool_rcs_def BUFFER_COUNT_def)
  have c: "counts_ok held0"
    by (simp add: counts_ok_iff held0_def pool_rcs_def lt_BUFFER_COUNT)
  have h: "holds_references ?xs held0"
    by (simp add: held0_def pool_rcs_def pool0_def ctx0_def picture_context_copy_def
      picture_context_destroy_def rc_incr_def rc_decr_def set_rc_def emit_def Let_def
      BUFFER_COUNT_def INT_MAX_def INT_MIN_def)
  have z: "rc (picture_contexts ?s ! 0) = 0 \<and> (\<forall>j<0::nat. rc (picture_contexts ?s ! j) \<noteq> 0)"
    by (simp only: held0_run outcome.sel) simp
  have b: "(0::nat) < BUFFER_COUNT" by (simp add: BUFFER_COUNT_def)
  note t = rc_stays_nonnegative [OF l c r h]
  have 1: "counts_ok ?s" using t by (rule conjunct1)
  have 2: "UpdateBuffer_scan False (picture_contexts ?s) 0 = Ret 0"
    using t [THEN conjunct2, THEN conjunct1, rule_format, OF b, of False] z by (rule iffD2)
  have 3: "\<not> holds_references [Destroy 0] ?s"
    using t [THEN conjunct2, THEN conjunct2, rule_format, OF b] z by blast
  have 4: "is_Ret (consumers ?xs held0)" by (simp only: held0_run outcome.disc)
  from l c h 4 1 2 3 show ?thesis by (intro conjI)
qed

end
